theory Spec2Isabelle
  imports Complex_Main "HOL-Library.Word" "HOL-Library.Sublist"
begin

text \<open>
  A model of the stream pipeline of the \<^verbatim>\<open>people\<close> service: the validator of
  incoming messages (\<^verbatim>\<open>models.FullName.IsValid\<close>), the enrichment coordinator
  (\<^verbatim>\<open>models.Entry.Enrich\<close> with its three lookups) and the pipeline driver
  (\<^verbatim>\<open>handlers.ProcessMsg\<close>), followed by what the code does and does not
  guarantee.  The goroutines of the coordinator are modelled by a step function on a
  shared state, run under a schedule; everything outside the repository (JSON
  encoding, HTTP, the store, the broker, the cache) is a parameter.
\<close>

section \<open>Strings, UTF-8 and the name pattern\<close>

text \<open>
  A Go \<^verbatim>\<open>string\<close> is a sequence of bytes, and so is an Isabelle \<^typ>\<open>string\<close>:
  \<^term>\<open>length\<close> is Go's \<^verbatim>\<open>len\<close> (a byte count), and a Cyrillic letter is two
  characters of the list.  Go's \<^verbatim>\<open>regexp\<close> reads its input rune by rune with
  \<^verbatim>\<open>utf8.DecodeRuneInString\<close>; \<open>DecodeRune\<close> is that decoder on the bytes as
  numbers: it returns the rune and its width, and (U+FFFD, 1) for every byte that
  does not start a well-formed encoding.
\<close>

definition RuneError :: nat where
  "RuneError = 0xFFFD"

definition cont_byte :: "nat \<Rightarrow> bool" where
  "cont_byte b = (0x80 \<le> b \<and> b \<le> 0xBF)"

fun DecodeRune :: "nat list \<Rightarrow> nat \<times> nat" where
  "DecodeRune [] = (RuneError, 0)"
| "DecodeRune (s0 # rest) =
    (if s0 < 0x80 then (s0, 1)
     else if s0 < 0xC2 \<or> 0xF4 < s0 then (RuneError, 1)
     else if s0 < 0xE0 then
       (case rest of
          s1 # _ \<Rightarrow>
            if cont_byte s1 then ((s0 mod 0x20) * 0x40 + s1 mod 0x40, 2)
            else (RuneError, 1)
        | _ \<Rightarrow> (RuneError, 1))
     else if s0 < 0xF0 then
       (case rest of
          s1 # s2 # _ \<Rightarrow>
            if (if s0 = 0xE0 then 0xA0 else 0x80) \<le> s1
               \<and> s1 \<le> (if s0 = 0xED then 0x9F else 0xBF) \<and> cont_byte s2
            then ((s0 mod 0x10) * 0x1000 + (s1 mod 0x40) * 0x40 + s2 mod 0x40, 3)
            else (RuneError, 1)
        | _ \<Rightarrow> (RuneError, 1))
     else
       (case rest of
          s1 # s2 # s3 # _ \<Rightarrow>
            if (if s0 = 0xF0 then 0x90 else 0x80) \<le> s1
               \<and> s1 \<le> (if s0 = 0xF4 then 0x8F else 0xBF)
               \<and> cont_byte s2 \<and> cont_byte s3
            then ((s0 mod 0x08) * 0x40000 + (s1 mod 0x40) * 0x1000
                  + (s2 mod 0x40) * 0x40 + s3 mod 0x40, 4)
            else (RuneError, 1)
        | _ \<Rightarrow> (RuneError, 1)))"

lemma DecodeRune_width: "1 \<le> snd (DecodeRune (b # bs))"
  by (simp split: list.splits)

text \<open>The runes of a byte string, as a \<^verbatim>\<open>for _, r := range s\<close> loop meets them.\<close>

function runes_of :: "nat list \<Rightarrow> nat list" where
  "runes_of [] = []"
| "runes_of (b # bs) =
     fst (DecodeRune (b # bs)) # runes_of (drop (snd (DecodeRune (b # bs))) (b # bs))"
  by pat_completeness auto
termination
proof (relation "measure length")
  show "wf (measure length)" by simp
next
  fix b :: nat and bs :: "nat list"
  have "1 \<le> snd (DecodeRune (b # bs))" by (rule DecodeRune_width)
  then show "(drop (snd (DecodeRune (b # bs))) (b # bs), b # bs) \<in> measure length"
    by simp
qed

definition runes :: "string \<Rightarrow> nat list" where
  "runes s = runes_of (map of_char s)"

text \<open>
  The character class of \<^verbatim>\<open>`^[a-zA-Z\<dots>]+$`\<close> in the source: the ranges a-z, A-Z,
  U+0430-U+044F (Cyrillic small a to ya) and U+0410-U+042F (Cyrillic capital A to YA).
  Without the \<open>m\<close> flag, \<open>^\<close> and \<open>$\<close> match only at the two ends of the text, so the
  pattern matches exactly the strings of one or more runes of the class.
\<close>

definition name_class :: "nat \<Rightarrow> bool" where
  "name_class r =
     ((0x61 \<le> r \<and> r \<le> 0x7A) \<or> (0x41 \<le> r \<and> r \<le> 0x5A)
      \<or> (0x430 \<le> r \<and> r \<le> 0x44F) \<or> (0x410 \<le> r \<and> r \<le> 0x42F))"

definition namePattern :: "string \<Rightarrow> bool" where
  "namePattern s = (runes s \<noteq> [] \<and> list_all name_class (runes s))"

text \<open>\<^verbatim>\<open>strings.Join\<close>.\<close>

fun Join :: "string list \<Rightarrow> string \<Rightarrow> string" where
  "Join [] sep = []"
| "Join [a] sep = a"
| "Join (a # b # rest) sep = a @ sep @ Join (b # rest) sep"

section \<open>The validator of stream messages\<close>

record FullName =
  Name :: string
  Surname :: string
  Patronymic :: string
  Error :: string

text \<open>
  \<^verbatim>\<open>FullName.IsValid\<close>: two \<^verbatim>\<open>switch\<close> statements, each appending the message of
  its first true case to \<open>errContent\<close>.
\<close>

definition IsValid :: "FullName \<Rightarrow> string" where
  "IsValid e =
    (let errContent = [];
         errContent =
           (if Name e = [] then errContent @ [''name cannot be empty'']
            else if length (Name e) < 2 then errContent @ [''name is too short'']
            else if length (Name e) > 50 then errContent @ [''name is too long'']
            else if \<not> namePattern (Name e)
              then errContent @ [''name contains invalid characters'']
            else errContent);
         errContent =
           (if Surname e = [] then errContent @ [''surname cannot be empty'']
            else if length (Surname e) < 2 then errContent @ [''surname is too short'']
            else if length (Surname e) > 50 then errContent @ [''surname is too long'']
            else if \<not> namePattern (Surname e)
              then errContent @ [''surname contains invalid characters'']
            else errContent)
     in if length errContent = 0 then [] else Join errContent '', '')"

text \<open>
  The method has a pointer receiver and assigns nothing through it: a call returns
  the cause and leaves the record as it was.
\<close>

definition IsValid_call :: "FullName \<Rightarrow> string \<times> FullName" where
  "IsValid_call e = (IsValid e, e)"

text \<open>The message of the first true case of one of the two switches.\<close>

definition first_violation :: "string \<Rightarrow> string \<Rightarrow> string list" where
  "first_violation field v =
    (if v = [] then [field @ '' cannot be empty'']
     else if length v < 2 then [field @ '' is too short'']
     else if length v > 50 then [field @ '' is too long'']
     else if \<not> namePattern v then [field @ '' contains invalid characters'']
     else [])"



text \<open>What the code accepts in a field: 2 to 50 bytes, all of them letters of the pattern.\<close>

definition name_ok :: "string \<Rightarrow> bool" where
  "name_ok v = (2 \<le> length v \<and> length v \<le> 50 \<and> namePattern v)"

subsection \<open>Properties of the validator\<close>

lemma IsValid_unfold:
  "IsValid e =
     Join (first_violation ''name'' (Name e) @ first_violation ''surname'' (Surname e)) '', ''"
  by (cases "Name e = []"; cases "length (Name e) < 2"; cases "length (Name e) > 50";
      cases "namePattern (Name e)")
     (simp_all add: IsValid_def first_violation_def)


lemma first_violation_Nil_iff: "first_violation field v = [] \<longleftrightarrow> name_ok v"
  by (auto simp: first_violation_def name_ok_def)

lemma first_violation_nonempty: "[] \<notin> set (first_violation field v)"
  by (simp add: first_violation_def)

lemma Join_Nil_iff: "[] \<notin> set xs \<Longrightarrow> Join xs sep = [] \<longleftrightarrow> xs = []"
  by (induction xs sep rule: Join.induct) auto

lemma IsValid_empty_iff: "IsValid e = [] \<longleftrightarrow> name_ok (Name e) \<and> name_ok (Surname e)"
proof -
  have "[] \<notin> set (first_violation ''name'' (Name e) @ first_violation ''surname'' (Surname e))"
    using first_violation_nonempty by simp
  then have "IsValid e = [] \<longleftrightarrow>
      first_violation ''name'' (Name e) @ first_violation ''surname'' (Surname e) = []"
    unfolding IsValid_unfold by (rule Join_Nil_iff)
  then show ?thesis
    by (simp only: append_is_Nil_conv first_violation_Nil_iff)
qed

lemma IsValid_Error_irrelevant: "IsValid (e\<lparr>Error := c\<rparr>) = IsValid e"
  by (simp add: IsValid_unfold)




text \<open>
  C8 fails on the code, which measures a name with \<^verbatim>\<open>len\<close>, the number of bytes
  of its UTF-8 encoding, two for each Cyrillic letter.  The name of one letter, capital
  YA (U+042F, the bytes D0 AF), has no violation; the name of 26 letters, small ya
  (U+044F, the bytes D1 8F) 26 times, is too long.
\<close>

theorem IsValid_one_cyrillic_letter:
  "IsValid \<lparr>FullName.Name = [CHR 0xD0, CHR 0xAF], Surname = ''Ivanov'', Patronymic = [], Error = []\<rparr>
     = []
   \<and> runes [CHR 0xD0, CHR 0xAF] = [0x42F]
   \<and> IsValid \<lparr>FullName.Name = concat (replicate 26 [CHR 0xD1, CHR 0x8F]), Surname = ''Ivanov'',
                Patronymic = [], Error = []\<rparr>
     = ''name is too long''
   \<and> runes (concat (replicate 26 [CHR 0xD1, CHR 0x8F])) = replicate 26 0x44F"
proof -
  have a: "IsValid \<lparr>FullName.Name = [CHR 0xD0, CHR 0xAF], Surname = ''Ivanov'', Patronymic = [],
      Error = []\<rparr> = [] \<and> runes [CHR 0xD0, CHR 0xAF] = [0x42F]"
    by (simp add: IsValid_def namePattern_def runes_def name_class_def cont_byte_def)
  have r: "replicate 26 x = [x,x,x,x,x,x,x,x,x,x,x,x,x,x,x,x,x,x,x,x,x,x,x,x,x,x]" for x :: 'a
    by (simp add: eval_nat_numeral)
  have b: "IsValid \<lparr>FullName.Name = concat (replicate 26 [CHR 0xD1, CHR 0x8F]), Surname = ''Ivanov'',
                Patronymic = [], Error = []\<rparr> = ''name is too long''"
    unfolding r by (simp add: IsValid_def namePattern_def runes_def name_class_def)
  have c: "runes (concat (replicate 26 [CHR 0xD1, CHR 0x8F])) = replicate 26 0x44F"
    unfolding r by (simp add: runes_def cont_byte_def)
  from a b c show ?thesis by simp
qed

theorem IsValid_one_cyrillic_letter_witness:
  "\<exists>e. IsValid e = [] \<and> length (runes (Name e)) = 1"
  by (rule exI [of _ "\<lparr>Name = [CHR 0xD0, CHR 0xAF], Surname = ''Ivanov'',
        Patronymic = [], Error = []\<rparr>"])
     (use IsValid_one_cyrillic_letter in simp)

text \<open>
  C9.  A second call on the record the first call left returns the same cause, and
  so does a call on the record once the pipeline has stored the cause in its
  \<open>Error\<close> field: the validator reads the name and the surname only.
\<close>

theorem IsValid_repeatable:
  "snd (IsValid_call e) = e
   \<and> fst (IsValid_call (snd (IsValid_call e))) = fst (IsValid_call e)
   \<and> IsValid (e\<lparr>Error := IsValid e\<rparr>) = IsValid e"
  by (simp add: IsValid_call_def IsValid_Error_irrelevant)

theorem IsValid_repeatable_witness:
  "fst (IsValid_call (snd (IsValid_call
      \<lparr>Name = ''1Ivan'', Surname = ''Ivanov'', Patronymic = [], Error = []\<rparr>)))
    = ''name contains invalid characters''"
proof -
  have "fst (IsValid_call \<lparr>Name = ''1Ivan'', Surname = ''Ivanov'', Patronymic = [], Error = []\<rparr>)
      = ''name contains invalid characters''"
    by (simp add: IsValid_call_def IsValid_def namePattern_def runes_def name_class_def)
  with IsValid_repeatable
    [of "\<lparr>Name = ''1Ivan'', Surname = ''Ivanov'', Patronymic = [], Error = []\<rparr>"]
  show ?thesis by simp
qed

section \<open>The model of database entries and decoded JSON\<close>

text \<open>
  A Go \<^verbatim>\<open>error\<close> is modelled by its message.  \<open>json\<close> is what
  \<^verbatim>\<open>encoding/json\<close> decodes into an \<^verbatim>\<open>interface{}\<close>: nil, bool, float64,
  string, \<^verbatim>\<open>[]interface{}\<close> and \<^verbatim>\<open>map[string]interface{}\<close> (an association
  list read with \<^term>\<open>map_of\<close>).  Every finite float64 is a rational number.
\<close>

type_synonym error = string

datatype json =
    JNull
  | JBool bool
  | JNumber rat
  | JString string
  | JArray "json list"
  | JObject "(string \<times> json) list"

text \<open>
  \<^verbatim>\<open>models.Entry\<close>.  The time stamps of the embedded \<^verbatim>\<open>gorm.Model\<close> are left
  out: nothing below reads or writes them.
\<close>

record Entry =
  ID :: "64 word"
  Name :: string
  Surname :: string
  Patronymic :: string
  Age :: "8 word"
  Gender :: string
  Nationality :: string

text \<open>
  The conversion \<^verbatim>\<open>uint8(target)\<close> of a float64 drops the fraction.  For a value
  whose integer part is outside 0..255 the language leaves the result to the
  implementation.  The model follows the amd64 compiler there, which converts
  through a 32-bit signed integer and keeps its low byte: the integer part wraps
  modulo 256 when it fits in an int32, and the result is 0 when it does not (the
  conversion instruction then yields \<open>- 2\<^sup>3\<^sup>1\<close>, whose low byte is 0).  Other
  targets may differ outside 0..255; no theorem below converts a number outside
  that range.
\<close>

definition uint8_of_float64 :: "rat \<Rightarrow> 8 word" where
  "uint8_of_float64 x =
     (let t = (if 0 \<le> x then \<lfloor>x\<rfloor> else \<lceil>x\<rceil>)
      in if - (2 ^ 31) \<le> t \<and> t < 2 ^ 31 then word_of_int t else 0)"

section \<open>The three lookups\<close>

text \<open>
  Each of \<^verbatim>\<open>age\<close>, \<^verbatim>\<open>gender\<close> and \<^verbatim>\<open>nationality\<close> runs as a goroutine
  holding a pointer to one field of the entry, the wait group and the error channel.
  Between its channel sends a lookup only computes on its own locals, so what it does
  to the shared state is a list of errors to send, in order, followed by one last
  action: the assignment through its pointer with the deferred \<^verbatim>\<open>wg.Done()\<close>, or a
  run-time panic.  None of the three returns after \<^verbatim>\<open>ch <- err\<close>, so a lookup
  can send more than once.  \<open>Running sends last\<close> is a goroutine with \<open>sends\<close>
  still to do; \<open>last = None\<close> is the panic.
\<close>

datatype assignment = SetAge "8 word" | SetGender string | SetNationality string

fun assign :: "assignment \<Rightarrow> Entry \<Rightarrow> Entry" where
  "assign (SetAge v) e = e\<lparr>Age := v\<rparr>"
| "assign (SetGender v) e = e\<lparr>Gender := v\<rparr>"
| "assign (SetNationality v) e = e\<lparr>Nationality := v\<rparr>"

datatype goroutine = Running "error list" "assignment option" | Finished

text \<open>
  \<^verbatim>\<open>apiReq\<close> (an HTTP GET and the decoding of the body) is the environment's: a
  function from the URL to an error or the decoded object.  When it fails the
  caller's \<open>reqData\<close> stays the nil map, which reads as the empty one; a body
  \<^verbatim>\<open>null\<close> decodes without error and leaves it nil too.
\<close>

type_synonym api = "string \<Rightarrow> error + (string \<times> json) list"

definition age :: "api \<Rightarrow> string \<Rightarrow> goroutine" where
  "age apiReq name =
    (let url = ''https://api.agify.io/?name='' @ name;
         (reqData, sends) = (case apiReq url of Inl err \<Rightarrow> ([], [err]) | Inr d \<Rightarrow> (d, []));
         (target, ok) = (case map_of reqData ''age'' of
                           Some (JNumber x) \<Rightarrow> (x, True) | _ \<Rightarrow> (0, False));
         sends = (if \<not> ok then sends @ [''age data not found''] else sends)
     in Running sends (Some (SetAge (uint8_of_float64 target))))"

definition gender :: "api \<Rightarrow> string \<Rightarrow> goroutine" where
  "gender apiReq name =
    (let url = ''https://api.genderize.io/?name='' @ name;
         (reqData, sends) = (case apiReq url of Inl err \<Rightarrow> ([], [err]) | Inr d \<Rightarrow> (d, []));
         (target, ok) = (case map_of reqData ''gender'' of
                           Some (JString x) \<Rightarrow> (x, True) | _ \<Rightarrow> ([], False));
         sends = (if \<not> ok then sends @ [''gender data not found''] else sends)
     in Running sends (Some (SetGender target)))"

text \<open>
  In \<^verbatim>\<open>nationality\<close> the expression \<^verbatim>\<open>countryList[0]\<close> follows the send of
  \<open>country data not found\<close>: on a nil or empty list it panics (index out of range).
\<close>

definition nationality :: "api \<Rightarrow> string \<Rightarrow> goroutine" where
  "nationality apiReq name =
    (let url = ''https://api.nationalize.io/?name='' @ name;
         (reqData, sends) = (case apiReq url of Inl err \<Rightarrow> ([], [err]) | Inr d \<Rightarrow> (d, []));
         (countryList, ok) = (case map_of reqData ''country'' of
                                Some (JArray l) \<Rightarrow> (l, True) | _ \<Rightarrow> ([], False));
         sends = (if \<not> ok \<or> length countryList = 0
                  then sends @ [''country data not found''] else sends)
     in case countryList of
          [] \<Rightarrow> Running sends None
        | c0 # _ \<Rightarrow>
           (let (firstCountry, ok) = (case c0 of JObject m \<Rightarrow> (m, True) | _ \<Rightarrow> ([], False));
                sends = (if \<not> ok then sends @ [''invalid country data''] else sends);
                (countryID, ok) = (case map_of firstCountry ''country_id'' of
                                     Some (JString x) \<Rightarrow> (x, True) | _ \<Rightarrow> ([], False));
                sends = (if \<not> ok then sends @ [''country ID not found''] else sends)
            in Running sends (Some (SetNationality countryID))))"

section \<open>The enrichment coordinator\<close>

text \<open>
  \<^verbatim>\<open>Entry.Enrich\<close> starts five threads of control: the three lookups, the anonymous
  goroutine that waits for the group and closes the channel, and \<^verbatim>\<open>Enrich\<close> itself,
  which ranges over the channel and returns the first error it receives, or nil once
  the channel is closed and empty.  The state holds the receiver \<open>entry\<close>, the
  buffer of \<^verbatim>\<open>errCh\<close> (capacity 1), whether it is closed, the counter of the wait
  group, the three lookups, where \<^verbatim>\<open>Enrich\<close> is, and whether the process has
  panicked.

  \<open>step a s\<close> is the next state when the actor \<open>a\<close> can move, and \<open>None\<close> when
  it is blocked or done: a send blocks while the buffer is full; the closer blocks
  until the counter is 0; \<^verbatim>\<open>Enrich\<close> blocks while the buffer is empty and the
  channel open.  A panic ends the process: nothing moves after it.
\<close>

datatype actor = G_age | G_gender | G_nationality | G_closer | G_Enrich

datatype caller = Receiving | Returned "error option"

record estate =
  entry :: Entry
  errCh :: "error list"
  closed :: bool
  tasks :: nat
  g_age :: goroutine
  g_gender :: goroutine
  g_nationality :: goroutine
  caller :: caller
  panicked :: bool

definition worker :: "goroutine \<Rightarrow> estate \<Rightarrow> (goroutine \<times> estate) option" where
  "worker g s =
    (case g of
       Finished \<Rightarrow> None
     | Running (err # rest) fin \<Rightarrow>
         if closed s then Some (g, s\<lparr>panicked := True\<rparr>)
         else if length (errCh s) < 1
           then Some (Running rest fin, s\<lparr>errCh := errCh s @ [err]\<rparr>)
         else None
     | Running [] None \<Rightarrow> Some (g, s\<lparr>panicked := True\<rparr>)
     | Running [] (Some w) \<Rightarrow>
         Some (Finished, s\<lparr>entry := assign w (entry s), tasks := tasks s - 1\<rparr>))"

definition step :: "actor \<Rightarrow> estate \<Rightarrow> estate option" where
  "step a s =
    (if panicked s then None
     else case a of
       G_age \<Rightarrow> map_option (\<lambda>(g, s'). s'\<lparr>g_age := g\<rparr>) (worker (g_age s) s)
     | G_gender \<Rightarrow> map_option (\<lambda>(g, s'). s'\<lparr>g_gender := g\<rparr>) (worker (g_gender s) s)
     | G_nationality \<Rightarrow>
         map_option (\<lambda>(g, s'). s'\<lparr>g_nationality := g\<rparr>) (worker (g_nationality s) s)
     | G_closer \<Rightarrow>
         if tasks s = 0 \<and> \<not> closed s then Some (s\<lparr>closed := True\<rparr>) else None
     | G_Enrich \<Rightarrow>
         (case caller s of
            Returned r \<Rightarrow> None
          | Receiving \<Rightarrow>
              (case errCh s of
                 err # rest \<Rightarrow> Some (s\<lparr>errCh := rest, caller := Returned (Some err)\<rparr>)
               | [] \<Rightarrow> if closed s then Some (s\<lparr>caller := Returned None\<rparr>) else None)))"

text \<open>
  A schedule is a list of actors; an actor scheduled while it cannot move leaves
  the state as it is.  \<open>run sched s\<close> is the state after the schedule.
\<close>

fun run :: "actor list \<Rightarrow> estate \<Rightarrow> estate" where
  "run [] s = s"
| "run (a # as) s = run as (case step a s of Some s' \<Rightarrow> s' | None \<Rightarrow> s)"

definition Enrich_start :: "api \<Rightarrow> Entry \<Rightarrow> string \<Rightarrow> estate" where
  "Enrich_start apiReq e name =
     \<lparr>entry = e, errCh = [], closed = False, tasks = 3,
      g_age = age apiReq name, g_gender = gender apiReq name,
      g_nationality = nationality apiReq name,
      caller = Receiving, panicked = False\<rparr>"

text \<open>
  What the caller of \<^verbatim>\<open>Enrich\<close> has got when the schedule ends: the error returned
  (or nil) and the receiver as it is then; nothing yet; or the end of the process.
\<close>

datatype enriched = Returns "error option" Entry | Blocked | Crashed

definition Enrich :: "api \<Rightarrow> actor list \<Rightarrow> Entry \<Rightarrow> string \<Rightarrow> enriched" where
  "Enrich apiReq sched e name =
    (let s = run sched (Enrich_start apiReq e name)
     in if panicked s then Crashed
        else case caller s of
          Receiving \<Rightarrow> Blocked
        | Returned err \<Rightarrow> Returns err (entry s))"


section \<open>The validator of database entries\<close>

text \<open>
  \<^verbatim>\<open>Entry.IsValid\<close>, which the handlers Create and Update and the GraphQL
  mutations call before they write to the store.  \<^verbatim>\<open>`^[A-Z]{2}$`\<close> matches the
  strings of exactly two runes in A-Z.  The quotation marks in the gender message are
  U+201C and U+201D, three bytes each.
\<close>

definition countryPattern :: "string \<Rightarrow> bool" where
  "countryPattern s =
     (length (runes s) = 2 \<and> list_all (\<lambda>r. 0x41 \<le> r \<and> r \<le> 0x5A) (runes s))"

definition Entry_IsValid :: "Entry \<Rightarrow> error option" where
  "Entry_IsValid e =
    (let errContent = [];
         errContent =
           (if Entry.Name e = [] then errContent @ [''name cannot be empty'']
            else if length (Entry.Name e) < 2 then errContent @ [''name is too short'']
            else if length (Entry.Name e) > 50 then errContent @ [''name is too long'']
            else if \<not> namePattern (Entry.Name e)
              then errContent @ [''name contains invalid characters'']
            else errContent);
         errContent =
           (if Entry.Surname e = [] then errContent @ [''surname cannot be empty'']
            else if length (Entry.Surname e) < 2 then errContent @ [''surname is too short'']
            else if length (Entry.Surname e) > 50 then errContent @ [''surname is too long'']
            else if \<not> namePattern (Entry.Surname e)
              then errContent @ [''surname contains invalid characters'']
            else errContent);
         errContent =
           (if Age e < 1 \<or> Age e > 120 then errContent @ [''age contains invalid data'']
            else errContent);
         errContent =
           (if Gender e = [] then errContent @ [''gender cannot be empty'']
            else if Gender e \<noteq> ''male'' \<and> Gender e \<noteq> ''female''
              then errContent @
                [''only '' @ [CHR 0xE2, CHR 0x80, CHR 0x9C] @ ''male''
                 @ [CHR 0xE2, CHR 0x80, CHR 0x9D] @ '' or ''
                 @ [CHR 0xE2, CHR 0x80, CHR 0x9C] @ ''female''
                 @ [CHR 0xE2, CHR 0x80, CHR 0x9D] @ '' gender is available'']
            else errContent);
         errContent =
           (if Nationality e = [] then errContent @ [''nationality cannot be empty'']
            else if \<not> countryPattern (Nationality e)
              then errContent @ [''nationality contains invalid data (example: RU, US)'']
            else errContent)
     in if length errContent = 0 then None else Some (Join errContent '', ''))"

section \<open>The pipeline driver\<close>

text \<open>
  What \<^verbatim>\<open>ProcessMsg\<close> calls outside this repository is its environment:
  \<^verbatim>\<open>json.Unmarshal\<close> into a \<open>FullName\<close>, \<^verbatim>\<open>json.Marshal\<close> of one, the HTTP
  services behind \<^verbatim>\<open>apiReq\<close>, the store's answer to \<^verbatim>\<open>db.C.Create\<close> (an error,
  or the row as saved), whether the broker acknowledges a message produced to the
  failure topic, and the answer of \<^verbatim>\<open>FlushAll\<close>.  The world is the table of
  entries, the messages handed to the failure producer (\<open>failInput\<close>, what has been
  sent on \<^verbatim>\<open>prod.Input()\<close>), the messages on the failure topic and the number of
  cache flushes.
\<close>

record env =
  Unmarshal :: "string \<Rightarrow> error + FullName"
  Marshal :: "FullName \<Rightarrow> error + string"
  apiReq :: api
  db_Create :: "Entry list \<Rightarrow> Entry \<Rightarrow> error + Entry"
  acked :: "string \<Rightarrow> bool"
  FlushAll :: "error option"

record world =
  rows :: "Entry list"
  failInput :: "string list"
  failTopic :: "string list"
  flushes :: nat

text \<open>
  \<^verbatim>\<open>Topic.Produce\<close> hands the message to the producer
  (\<^verbatim>\<open>prod.Input() <- message\<close>) and waits for its answer: the message is on the
  topic when the broker acknowledges it; an error is logged and reported in the
  returned text only.
\<close>

definition Produce :: "env \<Rightarrow> string \<Rightarrow> world \<Rightarrow> string \<times> world" where
  "Produce env val w =
     (let w = w\<lparr>failInput := failInput w @ [val]\<rparr>
      in if acked env val
         then (''Message sent successfully'', w\<lparr>failTopic := failTopic w @ [val]\<rparr>)
         else (''Message sent unsuccessfully'', w))"

text \<open>
  \<^verbatim>\<open>ProcessMsg\<close> under a schedule of the goroutines of \<^verbatim>\<open>Enrich\<close>: \<open>Done w\<close>
  when it has returned and left the world \<open>w\<close>, \<open>Panic\<close> when the process has
  died in a lookup, \<open>Waiting\<close> when the schedule ends with \<^verbatim>\<open>Enrich\<close> still
  blocked on the channel.  A lookup can panic after \<^verbatim>\<open>Enrich\<close> has returned;
  a schedule with the panicking step stands for the runs in which the process dies
  before \<^verbatim>\<open>ProcessMsg\<close> has finished, and the schedule without it for those in
  which \<^verbatim>\<open>ProcessMsg\<close> finishes first.
\<close>

datatype result = Done world | Panic | Waiting

definition ProcessMsg :: "env \<Rightarrow> actor list \<Rightarrow> string \<Rightarrow> world \<Rightarrow> result" where
  "ProcessMsg env sched msg w =
    (case Unmarshal env msg of
       Inl err \<Rightarrow> Done (snd (Produce env msg w))
     | Inr dataMsg \<Rightarrow>
        (let result = IsValid dataMsg in
         if result \<noteq> [] then
           (let dataMsg = dataMsg\<lparr>Error := result\<rparr> in
            case Marshal env dataMsg of
              Inl err \<Rightarrow> Done (snd (Produce env msg w))
            | Inr jsonData \<Rightarrow> Done (snd (Produce env jsonData w)))
         else
           (let entry = \<lparr>ID = 0, Name = FullName.Name dataMsg,
                          Surname = FullName.Surname dataMsg,
                          Patronymic = FullName.Patronymic dataMsg,
                          Age = 0, Gender = [], Nationality = []\<rparr>
            in case Enrich (apiReq env) sched entry (Entry.Name entry) of
                 Crashed \<Rightarrow> Panic
               | Blocked \<Rightarrow> Waiting
               | Returns (Some err) entry \<Rightarrow>
                  (let dataMsg = dataMsg\<lparr>Error := ''Failed to enrich data from API: '' @ err\<rparr> in
                   case Marshal env dataMsg of
                     Inl err \<Rightarrow> Done (snd (Produce env msg w))
                   | Inr jsonData \<Rightarrow> Done (snd (Produce env jsonData w)))
               | Returns None entry \<Rightarrow>
                  (case db_Create env (rows w) entry of
                     Inl err \<Rightarrow>
                      (let dataMsg = dataMsg\<lparr>Error := ''Failed to create entry: '' @ err\<rparr> in
                       case Marshal env dataMsg of
                         Inl err \<Rightarrow> Done (snd (Produce env msg w))
                       | Inr jsonData \<Rightarrow> Done (snd (Produce env jsonData w)))
                   | Inr row \<Rightarrow>
                      (let w = w\<lparr>rows := rows w @ [row]\<rparr> in
                       case FlushAll env of
                         Some err \<Rightarrow> Done w
                       | None \<Rightarrow> Done (w\<lparr>flushes := flushes w + 1\<rparr>))))))"

section \<open>Properties of the coordinator\<close>

text \<open>
  The errors a lookup has still to send.  A lookup fails when it reports an error:
  none of the three sends on the channel for any other reason.
\<close>

definition sends_of :: "goroutine \<Rightarrow> error list" where
  "sends_of g = (case g of Running p f \<Rightarrow> p | Finished \<Rightarrow> [])"

definition fails :: "goroutine \<Rightarrow> bool" where
  "fails g = (sends_of g \<noteq> [])"

subsection \<open>What a step leaves alone\<close>

lemma run_append: "run (xs @ ys) s = run ys (run xs s)"
  by (induction xs arbitrary: s) simp_all

lemma assign_frame:
  "ID (assign w e) = ID e \<and> Name (assign w e) = Name e
   \<and> Surname (assign w e) = Surname e \<and> Patronymic (assign w e) = Patronymic e"
  by (cases w) simp_all

lemma worker_frame:
  assumes "worker g s = Some (g', s')"
  shows "ID (entry s') = ID (entry s) \<and> Name (entry s') = Name (entry s)
   \<and> Surname (entry s') = Surname (entry s) \<and> Patronymic (entry s') = Patronymic (entry s)"
  using assms
  by (auto simp: worker_def assign_frame split: goroutine.splits list.splits option.splits if_splits)

lemma step_frame:
  assumes "step a s = Some s'"
  shows "ID (entry s') = ID (entry s) \<and> Name (entry s') = Name (entry s)
   \<and> Surname (entry s') = Surname (entry s) \<and> Patronymic (entry s') = Patronymic (entry s)"
proof (cases a)
  case G_age
  with assms obtain g t where "worker (g_age s) s = Some (g, t)" and "s' = t\<lparr>g_age := g\<rparr>"
    by (auto simp: step_def split: if_splits)
  then show ?thesis using worker_frame by fastforce
next
  case G_gender
  with assms obtain g t where "worker (g_gender s) s = Some (g, t)" and "s' = t\<lparr>g_gender := g\<rparr>"
    by (auto simp: step_def split: if_splits)
  then show ?thesis using worker_frame by fastforce
next
  case G_nationality
  with assms obtain g t where "worker (g_nationality s) s = Some (g, t)"
    and "s' = t\<lparr>g_nationality := g\<rparr>"
    by (auto simp: step_def split: if_splits)
  then show ?thesis using worker_frame by fastforce
next
  case G_closer
  with assms show ?thesis by (auto simp: step_def split: if_splits)
next
  case G_Enrich
  with assms show ?thesis
    by (auto simp: step_def split: if_splits caller.splits list.splits)
qed

lemma run_frame:
  "ID (entry (run sched s)) = ID (entry s) \<and> Name (entry (run sched s)) = Name (entry s)
   \<and> Surname (entry (run sched s)) = Surname (entry s)
   \<and> Patronymic (entry (run sched s)) = Patronymic (entry s)"
proof (induction sched arbitrary: s)
  case Nil
  show ?case by simp
next
  case (Cons a sched)
  show ?case
  proof (cases "step a s")
    case None
    then show ?thesis using Cons.IH [of s] by simp
  next
    case (Some s')
    then show ?thesis using Cons.IH [of s'] step_frame [OF Some] by simp
  qed
qed

subsection \<open>The steps, case by case\<close>

text \<open>The lookup goroutine of an actor, and its replacement.\<close>

fun get :: "actor \<Rightarrow> estate \<Rightarrow> goroutine" where
  "get G_age s = g_age s"
| "get G_gender s = g_gender s"
| "get G_nationality s = g_nationality s"
| "get G_closer s = Finished"
| "get G_Enrich s = Finished"

fun put :: "actor \<Rightarrow> goroutine \<Rightarrow> estate \<Rightarrow> estate" where
  "put G_age g s = s\<lparr>g_age := g\<rparr>"
| "put G_gender g s = s\<lparr>g_gender := g\<rparr>"
| "put G_nationality g s = s\<lparr>g_nationality := g\<rparr>"
| "put G_closer g s = s"
| "put G_Enrich g s = s"

definition lookups :: "actor set" where
  "lookups = {G_age, G_gender, G_nationality}"

lemma worker_cases [consumes 1, case_names send send_closed finish panic]:
  assumes "worker g s = Some (g', s')"
  obtains
    (send) c rest fin where "g = Running (c # rest) fin" "\<not> closed s" "errCh s = []"
      "g' = Running rest fin" "s' = s\<lparr>errCh := [c]\<rparr>"
  | (send_closed) c rest fin where "g = Running (c # rest) fin" "closed s"
      "g' = g" "s' = s\<lparr>panicked := True\<rparr>"
  | (finish) w where "g = Running [] (Some w)" "g' = Finished"
      "s' = s\<lparr>entry := assign w (entry s), tasks := tasks s - 1\<rparr>"
  | (panic) "g = Running [] None" "g' = g" "s' = s\<lparr>panicked := True\<rparr>"
  using assms
  by (auto simp: worker_def split: goroutine.splits list.splits option.splits if_splits)

lemma step_cases [consumes 1, case_names lookup close recv nil]:
  assumes "step a s = Some s'"
  obtains
    (lookup) g' t where "a \<in> lookups" "\<not> panicked s" "worker (get a s) s = Some (g', t)"
      "s' = put a g' t"
  | (close) "a = G_closer" "\<not> panicked s" "tasks s = 0" "\<not> closed s" "s' = s\<lparr>closed := True\<rparr>"
  | (recv) c rest where "a = G_Enrich" "\<not> panicked s" "caller s = Receiving"
      "errCh s = c # rest" "s' = s\<lparr>errCh := rest, caller := Returned (Some c)\<rparr>"
  | (nil) "a = G_Enrich" "\<not> panicked s" "caller s = Receiving" "errCh s = []" "closed s"
      "s' = s\<lparr>caller := Returned None\<rparr>"
proof (cases a)
  case G_age
  with assms show ?thesis
    by (intro lookup [of "fst (the (worker (g_age s) s))" "snd (the (worker (g_age s) s))"])
       (auto simp: step_def lookups_def split: if_splits)
next
  case G_gender
  with assms show ?thesis
    by (intro lookup [of "fst (the (worker (g_gender s) s))" "snd (the (worker (g_gender s) s))"])
       (auto simp: step_def lookups_def split: if_splits)
next
  case G_nationality
  with assms show ?thesis
    by (intro lookup [of "fst (the (worker (g_nationality s) s))"
          "snd (the (worker (g_nationality s) s))"])
       (auto simp: step_def lookups_def split: if_splits)
next
  case G_closer
  with assms show ?thesis
    by (intro close) (auto simp: step_def split: if_splits)
next
  case G_Enrich
  with assms show ?thesis
    using recv nil
    by (auto simp: step_def split: if_splits caller.splits list.splits)
qed

subsection \<open>Invariants of a run\<close>

text \<open>
  \<open>alive\<close> counts the lookups that have not finished; \<open>unsent g0 g\<close> says that
  a lookup that started as \<open>g0\<close> and is now \<open>g\<close> has not sent so far; \<open>causes\<close>
  are the errors the three lookups of a state have to send.
\<close>

definition live :: "goroutine \<Rightarrow> nat" where
  "live g = (if g = Finished then 0 else 1)"

definition alive :: "estate \<Rightarrow> nat" where
  "alive s = live (g_age s) + live (g_gender s) + live (g_nationality s)"

definition unsent :: "goroutine \<Rightarrow> goroutine \<Rightarrow> bool" where
  "unsent g0 g = (g = g0 \<or> (g = Finished \<and> sends_of g0 = []))"

definition causes :: "estate \<Rightarrow> error set" where
  "causes s0 = set (sends_of (g_age s0)) \<union> set (sends_of (g_gender s0))
     \<union> set (sends_of (g_nationality s0))"

lemma get_put: "a \<in> lookups \<Longrightarrow> get b (put a g t) = (if b = a then g else get b t)"
  by (cases a; cases b) (simp_all add: lookups_def)

lemma put_fields [simp]:
  "caller (put a g t) = caller t" "errCh (put a g t) = errCh t" "closed (put a g t) = closed t"
  "tasks (put a g t) = tasks t" "entry (put a g t) = entry t" "panicked (put a g t) = panicked t"
  by (cases a; simp)+

lemma get_upd [simp]:
  "get a (s\<lparr>errCh := x\<rparr>) = get a s" "get a (s\<lparr>panicked := p\<rparr>) = get a s"
  "get a (s\<lparr>closed := c\<rparr>) = get a s" "get a (s\<lparr>caller := r\<rparr>) = get a s"
  "get a (s\<lparr>entry := e\<rparr>) = get a s" "get a (s\<lparr>tasks := n\<rparr>) = get a s"
  by (cases a; simp)+

lemma alive_upd [simp]:
  "alive (s\<lparr>errCh := x\<rparr>) = alive s" "alive (s\<lparr>panicked := p\<rparr>) = alive s"
  "alive (s\<lparr>closed := c\<rparr>) = alive s" "alive (s\<lparr>caller := r\<rparr>) = alive s"
  "alive (s\<lparr>entry := e\<rparr>) = alive s" "alive (s\<lparr>tasks := n\<rparr>) = alive s"
  by (simp_all add: alive_def)

lemma alive_put: "a \<in> lookups \<Longrightarrow> alive (put a g t) + live (get a t) = alive t + live g"
  by (cases a) (simp_all add: alive_def lookups_def)

lemma alive_0: "alive s = 0 \<Longrightarrow> a \<in> lookups \<Longrightarrow> get a s = Finished"
  by (cases a) (auto simp: alive_def live_def lookups_def split: if_splits)

lemma causes_get: "a \<in> lookups \<Longrightarrow> set (sends_of (get a s0)) \<subseteq> causes s0"
  by (auto simp: lookups_def causes_def)

text \<open>The counter of the wait group is the number of lookups that have not finished.\<close>

lemma tasks_step:
  assumes "tasks s = alive s" and "step a s = Some s'"
  shows "tasks s' = alive s'"
  using assms(2)
proof (cases rule: step_cases)
  case (lookup g' t)
  from lookup(3) show ?thesis
  proof (cases rule: worker_cases)
    case (send c rest fin)
    with lookup(1,4) assms(1) alive_put [OF lookup(1), of g' t] show ?thesis
      by (simp add: live_def)
  next
    case (send_closed c rest fin)
    with lookup(1,4) assms(1) alive_put [OF lookup(1), of g' t] show ?thesis
      by (simp add: live_def)
  next
    case (finish w)
    with lookup(1,4) assms(1) alive_put [OF lookup(1), of g' t] show ?thesis
      by (simp add: live_def)
  next
    case panic
    with lookup(1,4) assms(1) alive_put [OF lookup(1), of g' t] show ?thesis
      by (simp add: live_def)
  qed
qed (use assms(1) in simp_all)

lemma closed_step:
  assumes "closed s \<longrightarrow> tasks s = 0" and "step a s = Some s'"
  shows "closed s' \<longrightarrow> tasks s' = 0"
  using assms(2)
proof (cases rule: step_cases)
  case (lookup g' t)
  from lookup(3) show ?thesis
    by (cases rule: worker_cases) (use lookup(4) assms(1) in simp_all)
qed (use assms(1) in simp_all)

lemma sends_step:
  assumes "\<forall>b\<in>lookups. set (sends_of (get b s)) \<subseteq> set (sends_of (get b s0))"
    and "step a s = Some s'"
  shows "\<forall>b\<in>lookups. set (sends_of (get b s')) \<subseteq> set (sends_of (get b s0))"
  using assms(2)
proof (cases rule: step_cases)
  case (lookup g' t)
  from assms(1) lookup(1) have a: "set (sends_of (get a s)) \<subseteq> set (sends_of (get a s0))"
    by blast
  from lookup(3) have "set (sends_of g') \<subseteq> set (sends_of (get a s))"
    and "\<forall>b. get b t = get b s"
    by (cases rule: worker_cases; auto simp: sends_of_def)+
  with a assms(1) lookup(1,4) show ?thesis
    by (simp add: get_put) blast
qed (use assms(1) in simp_all)

lemma errCh_step:
  assumes "set (errCh s) \<subseteq> causes s0"
    and "\<forall>b\<in>lookups. set (sends_of (get b s)) \<subseteq> set (sends_of (get b s0))"
    and "step a s = Some s'"
  shows "set (errCh s') \<subseteq> causes s0"
  using assms(3)
proof (cases rule: step_cases)
  case (lookup g' t)
  from assms(2) lookup(1) causes_get [OF lookup(1), of s0]
  have a: "set (sends_of (get a s)) \<subseteq> causes s0"
    by blast
  from lookup(3) show ?thesis
  proof (cases rule: worker_cases)
    case (send c rest fin)
    with a lookup(4) show ?thesis by (simp add: sends_of_def)
  qed (use assms(1) lookup(4) in simp_all)
qed (use assms(1) in auto)

lemma returned_step:
  assumes "\<forall>c. caller s = Returned (Some c) \<longrightarrow> c \<in> causes s0"
    and "set (errCh s) \<subseteq> causes s0"
    and "step a s = Some s'"
  shows "\<forall>c. caller s' = Returned (Some c) \<longrightarrow> c \<in> causes s0"
  using assms(3)
proof (cases rule: step_cases)
  case (lookup g' t)
  from lookup(3) show ?thesis
    by (cases rule: worker_cases) (use assms(1) lookup(4) in simp_all)
qed (use assms(1,2) in auto)

text \<open>
  While \<^verbatim>\<open>Enrich\<close> is still receiving and the buffer is empty, no lookup has sent
  anything: a lookup is where it started, or has finished without a send.
\<close>

lemma quiet_step:
  assumes "caller s = Receiving \<and> errCh s = [] \<longrightarrow> (\<forall>b\<in>lookups. unsent (get b s0) (get b s))"
    and "step a s = Some s'"
  shows "caller s' = Receiving \<and> errCh s' = [] \<longrightarrow> (\<forall>b\<in>lookups. unsent (get b s0) (get b s'))"
  using assms(2)
proof (cases rule: step_cases)
  case (lookup g' t)
  from lookup(3) show ?thesis
  proof (cases rule: worker_cases)
    case (send c rest fin)
    with lookup(4) show ?thesis by simp
  next
    case (send_closed c rest fin)
    with lookup(1,4) have "\<forall>b. get b s' = get b s" by (simp add: get_put)
    with send_closed lookup(4) assms(1) show ?thesis by simp
  next
    case (finish w)
    show ?thesis
    proof (intro impI ballI)
      fix b assume q: "caller s' = Receiving \<and> errCh s' = []" and b: "b \<in> lookups"
      with finish lookup(4) assms(1) have u: "\<forall>b\<in>lookups. unsent (get b s0) (get b s)"
        by simp
      show "unsent (get b s0) (get b s')"
      proof (cases "b = a")
        case True
        from u lookup(1) finish(1) have "get a s0 = Running [] (Some w)"
          by (auto simp: unsent_def)
        with True finish lookup(1,4) show ?thesis
          by (simp add: get_put unsent_def sends_of_def)
      next
        case False
        with u b finish lookup(1,4) show ?thesis by (simp add: get_put)
      qed
    qed
  next
    case panic
    with lookup(1,4) have "\<forall>b. get b s' = get b s" by (simp add: get_put)
    with panic lookup(4) assms(1) show ?thesis by simp
  qed
qed (use assms(1) in simp_all)

lemma nil_step:
  assumes "caller s = Returned None \<longrightarrow> (\<forall>b\<in>lookups. sends_of (get b s0) = [])"
    and "caller s = Receiving \<and> errCh s = [] \<longrightarrow> (\<forall>b\<in>lookups. unsent (get b s0) (get b s))"
    and "tasks s = alive s" and "closed s \<longrightarrow> tasks s = 0"
    and "step a s = Some s'"
  shows "caller s' = Returned None \<longrightarrow> (\<forall>b\<in>lookups. sends_of (get b s0) = [])"
  using assms(5)
proof (cases rule: step_cases)
  case (lookup g' t)
  from lookup(3) show ?thesis
    by (cases rule: worker_cases) (use assms(1) lookup(4) in simp_all)
next
  case nil
  with assms(3,4) have "alive s = 0" by simp
  then have fin: "\<forall>b\<in>lookups. get b s = Finished" using alive_0 by blast
  from nil assms(2) have "\<forall>b\<in>lookups. unsent (get b s0) (get b s)" by simp
  with fin have "\<forall>b\<in>lookups. sends_of (get b s0) = []"
    by (auto simp: unsent_def sends_of_def)
  then show ?thesis by simp
qed (use assms(1) in simp_all)

text \<open>
  The invariant of the runs from \<open>s0\<close>: the counter of the wait group counts the
  unfinished lookups; the channel is closed only when the counter is 0; a lookup
  sends only what it had to send at the start; what is in the buffer and what
  \<^verbatim>\<open>Enrich\<close> has returned was sent by a lookup; nothing was sent while
  \<^verbatim>\<open>Enrich\<close> is receiving from an empty buffer, nor when it has returned nil.
\<close>

definition inv :: "estate \<Rightarrow> estate \<Rightarrow> bool" where
  "inv s0 s =
    (tasks s = alive s
     \<and> (closed s \<longrightarrow> tasks s = 0)
     \<and> (\<forall>b\<in>lookups. set (sends_of (get b s)) \<subseteq> set (sends_of (get b s0)))
     \<and> set (errCh s) \<subseteq> causes s0
     \<and> (\<forall>c. caller s = Returned (Some c) \<longrightarrow> c \<in> causes s0)
     \<and> (caller s = Receiving \<and> errCh s = [] \<longrightarrow> (\<forall>b\<in>lookups. unsent (get b s0) (get b s)))
     \<and> (caller s = Returned None \<longrightarrow> (\<forall>b\<in>lookups. sends_of (get b s0) = [])))"

lemma inv_step:
  assumes "inv s0 s" and st: "step a s = Some s'"
  shows "inv s0 s'"
proof -
  from assms(1) have
    i1: "tasks s = alive s" and
    i2: "closed s \<longrightarrow> tasks s = 0" and
    i3: "\<forall>b\<in>lookups. set (sends_of (get b s)) \<subseteq> set (sends_of (get b s0))" and
    i4: "set (errCh s) \<subseteq> causes s0" and
    i5: "\<forall>c. caller s = Returned (Some c) \<longrightarrow> c \<in> causes s0" and
    i6: "caller s = Receiving \<and> errCh s = [] \<longrightarrow> (\<forall>b\<in>lookups. unsent (get b s0) (get b s))" and
    i7: "caller s = Returned None \<longrightarrow> (\<forall>b\<in>lookups. sends_of (get b s0) = [])"
    unfolding inv_def by blast+
  note tasks_step [OF i1 st] closed_step [OF i2 st] sends_step [OF i3 st]
    errCh_step [OF i4 i3 st] returned_step [OF i5 i4 st] quiet_step [OF i6 st]
    nil_step [OF i7 i6 i1 i2 st]
  then show ?thesis unfolding inv_def by (intro conjI)
qed

lemma inv_run: "inv s0 s \<Longrightarrow> inv s0 (run sched s)"
proof (induction sched arbitrary: s)
  case Nil
  then show ?case by simp
next
  case (Cons a sched)
  then show ?case using inv_step by (cases "step a s") auto
qed

lemma inv_start:
  assumes "tasks s0 = 3" "\<not> closed s0" "errCh s0 = []" "caller s0 = Receiving"
    "\<forall>b\<in>lookups. get b s0 \<noteq> Finished"
  shows "inv s0 s0"
  unfolding inv_def
proof (intro conjI)
  from assms(5) have "g_age s0 \<noteq> Finished" "g_gender s0 \<noteq> Finished"
    "g_nationality s0 \<noteq> Finished"
    by (simp_all add: lookups_def)
  with assms(1) show "tasks s0 = alive s0" by (simp add: alive_def live_def)
qed (use assms in \<open>simp_all add: unsent_def\<close>)

subsection \<open>Every run ends\<close>

text \<open>
  \<open>fuel\<close> bounds the moves left: every move uses one unit up.  A state is stuck
  when no actor can move.  \<open>round\<close> schedules each actor once.
\<close>

definition weight :: "goroutine \<Rightarrow> nat" where
  "weight g = (case g of Running p f \<Rightarrow> length p + 1 | Finished \<Rightarrow> 0)"

definition fuel :: "estate \<Rightarrow> nat" where
  "fuel s =
    (if panicked s then 0
     else 1 + weight (g_age s) + weight (g_gender s) + weight (g_nationality s)
          + (if closed s then 0 else 1) + (if caller s = Receiving then 1 else 0))"

definition round :: "actor list" where
  "round = [G_age, G_gender, G_nationality, G_closer, G_Enrich]"

definition stuck :: "estate \<Rightarrow> bool" where
  "stuck s = (step G_age s = None \<and> step G_gender s = None \<and> step G_nationality s = None
              \<and> step G_closer s = None \<and> step G_Enrich s = None)"

lemma stuck_all: "stuck s \<Longrightarrow> step a s = None"
  by (cases a) (simp_all add: stuck_def)

lemma fuel_put:
  "a \<in> lookups \<Longrightarrow> \<not> panicked t \<Longrightarrow>
     fuel (put a g t) + weight (get a t) = fuel t + weight g"
  by (cases a) (simp_all add: fuel_def lookups_def)

lemma step_fuel:
  assumes "step a s = Some s'"
  shows "fuel s' < fuel s"
  using assms
proof (cases rule: step_cases)
  case (lookup g' t)
  from lookup(3) show ?thesis
  proof (cases rule: worker_cases)
    case (send c rest fin)
    with lookup(1,2,4) fuel_put [OF lookup(1), of t g'] show ?thesis
      by (simp add: weight_def fuel_def)
  next
    case (send_closed c rest fin)
    with lookup(1,2,4) show ?thesis by (simp add: fuel_def)
  next
    case (finish w)
    with lookup(1,2,4) fuel_put [OF lookup(1), of t g'] show ?thesis
      by (simp add: weight_def fuel_def)
  next
    case panic
    with lookup(1,2,4) show ?thesis by (simp add: fuel_def)
  qed
qed (simp_all add: fuel_def)

lemma run_fuel_le: "fuel (run sched s) \<le> fuel s"
proof (induction sched arbitrary: s)
  case Nil
  show ?case by simp
next
  case (Cons a sched)
  show ?case
  proof (cases "step a s")
    case None
    then show ?thesis using Cons.IH [of s] by simp
  next
    case (Some s')
    then show ?thesis using Cons.IH [of s'] step_fuel [OF Some] by simp
  qed
qed

lemma run_fuel_less: "a \<in> set sched \<Longrightarrow> step a s \<noteq> None \<Longrightarrow> fuel (run sched s) < fuel s"
proof (induction sched arbitrary: s)
  case Nil
  then show ?case by simp
next
  case (Cons b sched)
  show ?case
  proof (cases "step b s")
    case None
    with Cons.prems have "a \<in> set sched" by auto
    with None Cons.IH [of s] Cons.prems(2) show ?thesis by simp
  next
    case (Some s')
    then show ?thesis using run_fuel_le [of sched s'] step_fuel [OF Some] by simp
  qed
qed

lemma stuck_run: "stuck s \<Longrightarrow> run sched s = s"
  by (induction sched) (simp_all add: stuck_all)

lemma round_all: "a \<in> set round"
  by (cases a) (simp_all add: round_def)

lemma fuel_0_stuck: "fuel s = 0 \<Longrightarrow> stuck s"
  by (simp add: fuel_def stuck_def step_def split: if_splits)

lemma rounds_stuck: "fuel s \<le> n \<Longrightarrow> stuck (run (concat (replicate n round)) s)"
proof (induction n arbitrary: s)
  case 0
  then show ?case by (simp add: fuel_0_stuck)
next
  case (Suc n)
  show ?case
  proof (cases "stuck s")
    case True
    then show ?thesis by (simp add: stuck_run)
  next
    case False
    then obtain a where "step a s \<noteq> None" by (auto simp: stuck_def)
    with round_all have "fuel (run round s) < fuel s" by (rule run_fuel_less)
    with Suc.prems have "fuel (run round s) \<le> n" by simp
    then have "stuck (run (concat (replicate n round)) (run round s))" by (rule Suc.IH)
    then show ?thesis by (simp add: run_append)
  qed
qed

lemma stuck_returned:
  assumes t: "tasks s = alive s" and c: "closed s \<longrightarrow> tasks s = 0" and "stuck s"
  shows "panicked s \<or> caller s \<noteq> Receiving"
proof (rule ccontr)
  assume "\<not> (panicked s \<or> caller s \<noteq> Receiving)"
  then have np: "\<not> panicked s" and r: "caller s = Receiving" by simp_all
  from \<open>stuck s\<close> have e: "step G_Enrich s = None" and cl: "step G_closer s = None"
    and l: "step G_age s = None" "step G_gender s = None" "step G_nationality s = None"
    by (simp_all add: stuck_def)
  from e np r have empty: "errCh s = []" and opn: "\<not> closed s"
    by (auto simp: step_def split: list.splits if_splits)
  from cl np opn have "tasks s \<noteq> 0" by (simp add: step_def split: if_splits)
  with t have "g_age s \<noteq> Finished \<or> g_gender s \<noteq> Finished \<or> g_nationality s \<noteq> Finished"
    by (auto simp: alive_def live_def)
  moreover have "g \<noteq> Finished \<Longrightarrow> worker g s \<noteq> None" for g
    using empty opn
    by (auto simp: worker_def split: goroutine.splits list.splits option.splits)
  moreover from l np have "worker (g_age s) s = None" "worker (g_gender s) s = None"
    "worker (g_nationality s) s = None"
    by (simp_all add: step_def)
  ultimately show False by blast
qed

subsection \<open>What Enrich returns\<close>

text \<open>
  The causes the three lookups report for a name, and the schedule of \<open>n\<close> rounds.
\<close>

definition reported :: "api \<Rightarrow> string \<Rightarrow> error set" where
  "reported api name =
     set (sends_of (age api name)) \<union> set (sends_of (gender api name))
     \<union> set (sends_of (nationality api name))"

definition rounds :: "nat \<Rightarrow> actor list" where
  "rounds n = concat (replicate n round)"

text \<open>The three results of \<^verbatim>\<open>Enrich\<close>, in terms of the run.\<close>

lemma Enrich_Returns:
  "Enrich api sched e name = Returns err e' \<longleftrightarrow>
     \<not> panicked (run sched (Enrich_start api e name))
     \<and> caller (run sched (Enrich_start api e name)) = Returned err
     \<and> entry (run sched (Enrich_start api e name)) = e'"
  by (auto simp: Enrich_def Let_def split: caller.splits)

lemma Enrich_Crashed:
  "Enrich api sched e name = Crashed \<longleftrightarrow> panicked (run sched (Enrich_start api e name))"
  by (simp add: Enrich_def Let_def split: caller.splits)

lemma Enrich_Blocked:
  "Enrich api sched e name = Blocked \<longleftrightarrow>
     \<not> panicked (run sched (Enrich_start api e name))
     \<and> caller (run sched (Enrich_start api e name)) = Receiving"
  by (simp add: Enrich_def Let_def split: caller.splits)

lemma age_shape: "\<exists>p v. age api name = Running p (Some (SetAge v)) \<and> length p \<le> 2"
  by (simp add: age_def Let_def split: sum.splits option.splits json.splits prod.splits)

lemma gender_shape: "\<exists>p v. gender api name = Running p (Some (SetGender v)) \<and> length p \<le> 2"
  by (simp add: gender_def Let_def split: sum.splits option.splits json.splits prod.splits)

lemma nationality_shape:
  "\<exists>p f. nationality api name = Running p f \<and> length p \<le> 2
     \<and> (f = None \<or> (\<exists>v. f = Some (SetNationality v)))"
  by (auto simp: nationality_def Let_def
      split: sum.splits option.splits json.splits prod.splits list.splits)

lemma start_inv: "inv (Enrich_start api e name) (Enrich_start api e name)"
proof (rule inv_start)
  show "\<forall>b\<in>lookups. get b (Enrich_start api e name) \<noteq> Finished"
    using age_shape [of api name] gender_shape [of api name]
      nationality_shape [of api name]
    by (auto simp: lookups_def Enrich_start_def)
qed (simp_all add: Enrich_start_def)

lemma run_inv: "inv (Enrich_start api e name) (run sched (Enrich_start api e name))"
  using start_inv by (rule inv_run)

lemma start_causes: "causes (Enrich_start api e name) = reported api name"
  by (simp add: causes_def reported_def Enrich_start_def)

lemma start_fuel: "fuel (Enrich_start api e name) \<le> 12"
proof -
  obtain p v where a: "age api name = Running p (Some (SetAge v))" "length p \<le> 2"
    using age_shape by blast
  obtain q u where g: "gender api name = Running q (Some (SetGender u))" "length q \<le> 2"
    using gender_shape by blast
  obtain r f where n: "nationality api name = Running r f" "length r \<le> 2"
    using nationality_shape by blast
  from a g n show ?thesis by (simp add: fuel_def Enrich_start_def weight_def)
qed

lemma run_returns_cause:
  assumes "caller (run sched (Enrich_start api e name)) = Returned (Some c)"
  shows "c \<in> reported api name"
  using run_inv [of api e name sched] assms
  by (simp add: inv_def start_causes)

lemma run_returns_nil:
  assumes "caller (run sched (Enrich_start api e name)) = Returned None"
  shows "\<not> fails (age api name) \<and> \<not> fails (gender api name)
         \<and> \<not> fails (nationality api name)"
proof -
  from run_inv [of api e name sched] assms
  have "\<forall>b\<in>lookups. sends_of (get b (Enrich_start api e name)) = []"
    by (simp add: inv_def)
  then show ?thesis by (simp add: lookups_def fails_def Enrich_start_def)
qed

lemma rounds_complete:
  assumes "12 \<le> n"
  shows "panicked (run (rounds n) (Enrich_start api e name))
         \<or> caller (run (rounds n) (Enrich_start api e name)) \<noteq> Receiving"
proof -
  let ?s = "run (rounds n) (Enrich_start api e name)"
  from start_fuel [of api e name] assms have "fuel (Enrich_start api e name) \<le> n"
    by simp
  then have "stuck ?s" unfolding rounds_def by (rule rounds_stuck)
  moreover from run_inv [of api e name "rounds n"]
  have "tasks ?s = alive ?s" "closed ?s \<longrightarrow> tasks ?s = 0"
    unfolding inv_def by blast+
  ultimately show ?thesis using stuck_returned by blast
qed

subsection \<open>Errors sent and received\<close>

text \<open>
  Every error a lookup has sent is in the buffer or has been received by
  \<^verbatim>\<open>Enrich\<close>, which receives at most one: at most two sends ever complete.
\<close>

definition pending :: "estate \<Rightarrow> nat" where
  "pending s = length (sends_of (g_age s)) + length (sends_of (g_gender s))
     + length (sends_of (g_nationality s))"

definition received :: "estate \<Rightarrow> nat" where
  "received s = (case caller s of Returned (Some c) \<Rightarrow> 1 | _ \<Rightarrow> 0)"

lemma pending_upd [simp]:
  "pending (s\<lparr>errCh := x\<rparr>) = pending s" "pending (s\<lparr>panicked := p\<rparr>) = pending s"
  "pending (s\<lparr>closed := c\<rparr>) = pending s" "pending (s\<lparr>caller := r\<rparr>) = pending s"
  "pending (s\<lparr>entry := e\<rparr>) = pending s" "pending (s\<lparr>tasks := n\<rparr>) = pending s"
  by (simp_all add: pending_def)

lemma received_upd [simp]:
  "received (s\<lparr>errCh := x\<rparr>) = received s" "received (s\<lparr>panicked := p\<rparr>) = received s"
  "received (s\<lparr>closed := c\<rparr>) = received s"
  "received (s\<lparr>entry := e\<rparr>) = received s" "received (s\<lparr>tasks := n\<rparr>) = received s"
  "received (put a g s) = received s"
  by (simp_all add: received_def)

lemma pending_put:
  "a \<in> lookups \<Longrightarrow>
     pending (put a g t) + length (sends_of (get a t)) = pending t + length (sends_of g)"
  by (cases a) (simp_all add: pending_def lookups_def)

lemma sent_step:
  assumes "pending s + length (errCh s) + received s = n" and "step a s = Some s'"
  shows "pending s' + length (errCh s') + received s' = n"
  using assms(2)
proof (cases rule: step_cases)
  case (lookup g' t)
  from lookup(3) show ?thesis
  proof (cases rule: worker_cases)
    case (send c rest fin)
    with lookup(1,4) assms(1) pending_put [OF lookup(1), of g' t] show ?thesis
      by (simp add: sends_of_def)
  next
    case (send_closed c rest fin)
    with lookup(1,4) assms(1) pending_put [OF lookup(1), of g' t] show ?thesis
      by simp
  next
    case (finish w)
    with lookup(1,4) assms(1) pending_put [OF lookup(1), of g' t] show ?thesis
      by (simp add: sends_of_def)
  next
    case panic
    with lookup(1,4) assms(1) pending_put [OF lookup(1), of g' t] show ?thesis
      by simp
  qed
next
  case close
  with assms(1) show ?thesis by simp
next
  case (recv c rest)
  with assms(1) show ?thesis by (simp add: received_def)
next
  case nil
  with assms(1) show ?thesis by (simp add: received_def)
qed

lemma buffer_step:
  assumes "length (errCh s) \<le> 1" and "step a s = Some s'"
  shows "length (errCh s') \<le> 1"
  using assms(2)
proof (cases rule: step_cases)
  case (lookup g' t)
  from lookup(3) show ?thesis
    by (cases rule: worker_cases) (use assms(1) lookup(4) in simp_all)
qed (use assms(1) in simp_all)

lemma sent_run:
  assumes "pending s + length (errCh s) + received s = n" and "length (errCh s) \<le> 1"
  shows "pending (run sched s) + length (errCh (run sched s)) + received (run sched s) = n
    \<and> length (errCh (run sched s)) \<le> 1"
  using assms
proof (induction sched arbitrary: s)
  case Nil
  then show ?case by simp
next
  case (Cons a sched)
  show ?case
  proof (cases "step a s")
    case None
    with Cons show ?thesis by simp
  next
    case (Some s')
    from sent_step [OF Cons.prems(1) Some] buffer_step [OF Cons.prems(2) Some] Cons.IH [of s'] Some
    show ?thesis by simp
  qed
qed

subsection \<open>Panics\<close>

text \<open>
  A lookup panics when its last action is the panic.  The age and gender lookups
  never do, and a send on the closed channel cannot happen, so a run panics only in
  the nationality lookup.
\<close>

definition panics :: "goroutine \<Rightarrow> bool" where
  "panics g = (case g of Running p None \<Rightarrow> True | _ \<Rightarrow> False)"

text \<open>
  The nationality lookup panics exactly when the list it indexes is empty: the
  request failed, or the answer has no \<open>country\<close> array, or an empty one.
\<close>

lemma nationality_panics_iff:
  "panics (nationality api name) \<longleftrightarrow>
     \<not> (\<exists>reqData c l. api (''https://api.nationalize.io/?name='' @ name) = Inr reqData
            \<and> map_of reqData ''country'' = Some (JArray (c # l)))"
  by (auto simp: panics_def nationality_def Let_def
      split: sum.splits option.splits json.splits list.splits prod.splits)

lemma nopanic_step:
  assumes "\<not> panicked s" and t: "tasks s = alive s" and c: "closed s \<longrightarrow> tasks s = 0"
    and l: "\<forall>b\<in>lookups. \<not> panics (get b s)"
    and "step a s = Some s'"
  shows "\<not> panicked s' \<and> (\<forall>b\<in>lookups. \<not> panics (get b s'))"
  using assms(5)
proof (cases rule: step_cases)
  case (lookup g' t)
  from l lookup(1) have na: "\<not> panics (get a s)" by blast
  from lookup(3) show ?thesis
  proof (cases rule: worker_cases)
    case (send c rest fin)
    with na have "\<not> panics g'" by (simp add: panics_def split: option.splits)
    with send lookup(1,4) l assms(1) show ?thesis by (simp add: get_put)
  next
    case (send_closed c' rest fin)
    with t c have "alive s = 0" by simp
    from alive_0 [OF this lookup(1)] have "get a s = Finished" .
    with send_closed show ?thesis by simp
  next
    case (finish w)
    with lookup(1,4) l assms(1) show ?thesis by (simp add: get_put panics_def)
  next
    case panic
    with na show ?thesis by (simp add: panics_def)
  qed
qed (use assms(1) l in simp_all)

lemma run_nopanic:
  assumes "inv s0 s" "\<not> panicked s" "\<forall>b\<in>lookups. \<not> panics (get b s)"
  shows "\<not> panicked (run sched s)"
  using assms
proof (induction sched arbitrary: s)
  case Nil
  then show ?case by simp
next
  case (Cons a sched)
  show ?case
  proof (cases "step a s")
    case None
    with Cons show ?thesis by simp
  next
    case (Some s')
    from Cons.prems(1) have "tasks s = alive s" "closed s \<longrightarrow> tasks s = 0"
      unfolding inv_def by blast+
    from nopanic_step [OF Cons.prems(2) this Cons.prems(3) Some] inv_step [OF Cons.prems(1) Some]
    have "\<not> panicked (run sched s')" by (intro Cons.IH) simp_all
    with Some show ?thesis by simp
  qed
qed

lemma Enrich_nopanic:
  assumes "\<not> panics (nationality api name)"
  shows "\<not> panicked (run sched (Enrich_start api e name))"
proof (rule run_nopanic [OF start_inv])
  show "\<not> panicked (Enrich_start api e name)" by (simp add: Enrich_start_def)
  show "\<forall>b\<in>lookups. \<not> panics (get b (Enrich_start api e name))"
    using assms age_shape [of api name] gender_shape [of api name]
    by (auto simp: lookups_def Enrich_start_def panics_def)
qed

subsection \<open>The branches of ProcessMsg\<close>

text \<open>
  The dead-letter block, which \<^verbatim>\<open>ProcessMsg\<close> repeats for a rejected message, a
  failed enrichment and a failed write, and the entry it builds from a valid message.
\<close>

definition deadLetter :: "env \<Rightarrow> string \<Rightarrow> FullName \<Rightarrow> world \<Rightarrow> world" where
  "deadLetter env msg d w =
     (case Marshal env d of
        Inl err \<Rightarrow> snd (Produce env msg w)
      | Inr jsonData \<Rightarrow> snd (Produce env jsonData w))"

definition newEntry :: "FullName \<Rightarrow> Entry" where
  "newEntry d = \<lparr>ID = 0, Name = FullName.Name d, Surname = FullName.Surname d,
     Patronymic = FullName.Patronymic d, Age = 0, Gender = [], Nationality = []\<rparr>"

lemma Produce_world:
  "snd (Produce env m w)
    = (if acked env m
       then w\<lparr>failInput := failInput w @ [m], failTopic := failTopic w @ [m]\<rparr>
       else w\<lparr>failInput := failInput w @ [m]\<rparr>)"
  by (simp add: Produce_def)

lemma ProcessMsg_malformed:
  "Unmarshal env msg = Inl err \<Longrightarrow> ProcessMsg env sched msg w = Done (snd (Produce env msg w))"
  by (simp add: ProcessMsg_def)

lemma ProcessMsg_invalid:
  "Unmarshal env msg = Inr d \<Longrightarrow> IsValid d \<noteq> [] \<Longrightarrow>
     ProcessMsg env sched msg w = Done (deadLetter env msg (d\<lparr>Error := IsValid d\<rparr>) w)"
  by (simp add: ProcessMsg_def deadLetter_def Let_def split: sum.splits)

lemma ProcessMsg_valid:
  assumes "Unmarshal env msg = Inr d" "IsValid d = []"
  shows "ProcessMsg env sched msg w =
    (let s = run sched (Enrich_start (apiReq env) (newEntry d) (FullName.Name d)) in
     if panicked s then Panic
     else case caller s of
       Receiving \<Rightarrow> Waiting
     | Returned (Some err) \<Rightarrow>
         Done (deadLetter env msg (d\<lparr>Error := ''Failed to enrich data from API: '' @ err\<rparr>) w)
     | Returned None \<Rightarrow>
        (case db_Create env (rows w) (entry s) of
           Inl err \<Rightarrow> Done (deadLetter env msg (d\<lparr>Error := ''Failed to create entry: '' @ err\<rparr>) w)
         | Inr row \<Rightarrow>
            Done (case FlushAll env of
                    Some err \<Rightarrow> w\<lparr>rows := rows w @ [row]\<rparr>
                  | None \<Rightarrow> w\<lparr>rows := rows w @ [row], flushes := flushes w + 1\<rparr>)))"
  using assms
  by (simp add: ProcessMsg_def Enrich_def deadLetter_def newEntry_def Let_def
      split: sum.splits caller.splits option.splits)

subsection \<open>The fields after a nil return\<close>

text \<open>
  The lookup an assignment belongs to, and the field of a lookup as an assignment.
\<close>

fun kind :: "assignment \<Rightarrow> actor" where
  "kind (SetAge v) = G_age"
| "kind (SetGender v) = G_gender"
| "kind (SetNationality v) = G_nationality"

fun field :: "actor \<Rightarrow> Entry \<Rightarrow> assignment" where
  "field G_age e = SetAge (Age e)"
| "field G_gender e = SetGender (Gender e)"
| "field G_nationality e = SetNationality (Nationality e)"
| "field G_closer e = SetAge 0"
| "field G_Enrich e = SetAge 0"

lemma field_assign:
  "b \<in> lookups \<Longrightarrow> field b (assign w e) = (if kind w = b then w else field b e)"
  by (cases w; cases b) (simp_all add: lookups_def)

definition filled :: "estate \<Rightarrow> estate \<Rightarrow> actor \<Rightarrow> bool" where
  "filled s0 s b =
    ((get b s = Finished \<longrightarrow> (\<exists>p. get b s0 = Running p (Some (field b (entry s)))))
     \<and> (\<forall>p w. get b s = Running p (Some w) \<longrightarrow> kind w = b))"

lemma filled_step:
  assumes "\<forall>b\<in>lookups. filled s0 s b"
    and "\<forall>b\<in>lookups. \<forall>p f. get b s = Running p f \<longrightarrow> (\<exists>q. get b s0 = Running q f)"
    and "step a s = Some s'"
  shows "(\<forall>b\<in>lookups. filled s0 s' b)
    \<and> (\<forall>b\<in>lookups. \<forall>p f. get b s' = Running p f \<longrightarrow> (\<exists>q. get b s0 = Running q f))"
  using assms(3)
proof (cases rule: step_cases)
  case (lookup g' t)
  from assms(1) lookup(1) have fa: "filled s0 s a" by blast
  from lookup(3) show ?thesis
  proof (cases rule: worker_cases)
    case (send c rest fin)
    from fa send have "filled s0 s' a"
      using lookup(1,4) by (simp add: filled_def get_put)
    moreover have "filled s0 s' b" if b: "b \<in> lookups" "b \<noteq> a" for b
    proof -
      from b send lookup(1,4) have "get b s' = get b s" "entry s' = entry s"
        by (simp_all add: get_put)
      with assms(1) b(1) show ?thesis by (simp add: filled_def)
    qed
    ultimately have "\<forall>b\<in>lookups. filled s0 s' b" by blast
    moreover from send lookup(1,4) assms(2)
    have "\<forall>b\<in>lookups. \<forall>p f. get b s' = Running p f \<longrightarrow> (\<exists>q. get b s0 = Running q f)"
      by (auto simp: get_put)
    ultimately show ?thesis by blast
  next
    case (send_closed c rest fin)
    with lookup(1,4) have "\<forall>b. get b s' = get b s" "entry s' = entry s"
      by (simp_all add: get_put)
    with assms(1,2) show ?thesis by (simp add: filled_def)
  next
    case (finish w)
    from fa finish have k: "kind w = a" by (simp add: filled_def)
    from assms(2) lookup(1) finish obtain q where q: "get a s0 = Running q (Some w)" by blast
    from finish lookup(1,4) k q have "filled s0 s' a"
      by (simp add: filled_def get_put field_assign)
    moreover have "filled s0 s' b" if b: "b \<in> lookups" "b \<noteq> a" for b
    proof -
      from b finish lookup(1,4) k have "get b s' = get b s" "field b (entry s') = field b (entry s)"
        by (simp_all add: get_put field_assign)
      with assms(1) b(1) show ?thesis by (simp add: filled_def)
    qed
    ultimately have "\<forall>b\<in>lookups. filled s0 s' b" by blast
    moreover from finish lookup(1,4) assms(2)
    have "\<forall>b\<in>lookups. \<forall>p f. get b s' = Running p f \<longrightarrow> (\<exists>q. get b s0 = Running q f)"
      by (auto simp: get_put)
    ultimately show ?thesis by blast
  next
    case panic
    with lookup(1,4) have "\<forall>b. get b s' = get b s" "entry s' = entry s"
      by (simp_all add: get_put)
    with assms(1,2) show ?thesis by (simp add: filled_def)
  qed
next
  case close
  with assms(1,2) show ?thesis by (simp add: filled_def)
next
  case (recv c rest)
  with assms(1,2) show ?thesis by (simp add: filled_def)
next
  case nil
  with assms(1,2) show ?thesis by (simp add: filled_def)
qed

lemma nil_closed_step:
  assumes "caller s = Returned None \<longrightarrow> closed s" and "step a s = Some s'"
  shows "caller s' = Returned None \<longrightarrow> closed s'"
  using assms(2)
proof (cases rule: step_cases)
  case (lookup g' t)
  from lookup(3) show ?thesis
    by (cases rule: worker_cases) (use assms(1) lookup(4) in simp_all)
qed (use assms(1) in simp_all)

definition filling :: "estate \<Rightarrow> estate \<Rightarrow> bool" where
  "filling s0 s =
    ((\<forall>b\<in>lookups. filled s0 s b)
     \<and> (\<forall>b\<in>lookups. \<forall>p f. get b s = Running p f \<longrightarrow> (\<exists>q. get b s0 = Running q f))
     \<and> (caller s = Returned None \<longrightarrow> closed s))"

lemma filling_run: "filling s0 s \<Longrightarrow> filling s0 (run sched s)"
proof (induction sched arbitrary: s)
  case Nil
  then show ?case by simp
next
  case (Cons a sched)
  show ?case
  proof (cases "step a s")
    case None
    with Cons show ?thesis by simp
  next
    case (Some s')
    from Cons.prems have
      a: "\<forall>b\<in>lookups. filled s0 s b" and
      b: "\<forall>b\<in>lookups. \<forall>p f. get b s = Running p f \<longrightarrow> (\<exists>q. get b s0 = Running q f)" and
      c: "caller s = Returned None \<longrightarrow> closed s"
      unfolding filling_def by blast+
    from filled_step [OF a b Some] nil_closed_step [OF c Some] have "filling s0 s'"
      unfolding filling_def by blast
    with Some Cons.IH [of s'] show ?thesis by simp
  qed
qed

lemma filling_start: "filling (Enrich_start api e name) (Enrich_start api e name)"
proof -
  obtain p v where a: "age api name = Running p (Some (SetAge v))"
    using age_shape by blast
  obtain q u where g: "gender api name = Running q (Some (SetGender u))"
    using gender_shape by blast
  obtain r f where n: "nationality api name = Running r f"
    "f = None \<or> (\<exists>v. f = Some (SetNationality v))"
    using nationality_shape by blast
  from a g n show ?thesis
    by (auto simp: filling_def filled_def lookups_def Enrich_start_def)
qed

lemma get_start:
  "get G_age (Enrich_start api e name) = age api name"
  "get G_gender (Enrich_start api e name) = gender api name"
  "get G_nationality (Enrich_start api e name) = nationality api name"
  by (simp_all add: Enrich_start_def)

lemma run_filling: "filling (Enrich_start api e name) (run sched (Enrich_start api e name))"
  using filling_start by (rule filling_run)

lemma run_returns_nil_filled:
  assumes "caller (run sched (Enrich_start api e name)) = Returned None"
  shows "age api name = Running [] (Some (SetAge (Age (entry (run sched (Enrich_start api e name))))))
    \<and> gender api name
        = Running [] (Some (SetGender (Gender (entry (run sched (Enrich_start api e name))))))
    \<and> nationality api name
        = Running [] (Some (SetNationality
            (Nationality (entry (run sched (Enrich_start api e name))))))"
proof -
  let ?init = "Enrich_start api e name"
  let ?s = "run sched ?init"
  from run_filling [of api e name sched]
  have f: "\<forall>b\<in>lookups. filled ?init ?s b" and c: "caller ?s = Returned None \<longrightarrow> closed ?s"
    unfolding filling_def by blast+
  from run_inv [of api e name sched] have "tasks ?s = alive ?s" "closed ?s \<longrightarrow> tasks ?s = 0"
    unfolding inv_def by blast+
  with c assms have "alive ?s = 0" by simp
  then have fin: "\<forall>b\<in>lookups. get b ?s = Finished" using alive_0 by blast
  with f have g: "\<forall>b\<in>lookups. \<exists>p. get b ?init = Running p (Some (field b (entry ?s)))"
    unfolding filled_def by blast
  have "G_age \<in> lookups" "G_gender \<in> lookups" "G_nationality \<in> lookups"
    by (simp_all add: lookups_def)
  with g have "\<exists>p. get G_age ?init = Running p (Some (field G_age (entry ?s)))"
    "\<exists>p. get G_gender ?init = Running p (Some (field G_gender (entry ?s)))"
    "\<exists>p. get G_nationality ?init = Running p (Some (field G_nationality (entry ?s)))"
    by blast+
  then obtain p q r where
    "age api name = Running p (Some (SetAge (Age (entry ?s))))"
    "gender api name = Running q (Some (SetGender (Gender (entry ?s))))"
    "nationality api name = Running r (Some (SetNationality (Nationality (entry ?s))))"
    unfolding get_start field.simps by blast
  moreover from run_returns_nil [OF assms]
  have "sends_of (age api name) = []" "sends_of (gender api name) = []"
    "sends_of (nationality api name) = []"
    by (simp_all add: fails_def)
  ultimately show ?thesis by (simp add: sends_of_def)
qed

subsection \<open>What ProcessMsg leaves behind\<close>

lemma deadLetter_rows: "rows (deadLetter env msg d w) = rows w"
  by (simp add: deadLetter_def Produce_world split: sum.splits)

lemma Produce_rows: "rows (snd (Produce env m w)) = rows w"
  by (simp add: Produce_world)

text \<open>
  The two ways \<^verbatim>\<open>ProcessMsg\<close> can leave the world when it returns: one more
  row, and nothing handed to the failure producer; or the table as it was and one
  message handed to the failure producer, which is on the failure topic when, and
  only when, the broker acknowledges it.
\<close>

definition created :: "world \<Rightarrow> world \<Rightarrow> bool" where
  "created w w' = ((\<exists>row. rows w' = rows w @ [row])
     \<and> failInput w' = failInput w \<and> failTopic w' = failTopic w)"

definition dead_lettered :: "env \<Rightarrow> world \<Rightarrow> world \<Rightarrow> bool" where
  "dead_lettered env w w' = (rows w' = rows w
     \<and> (\<exists>m. failInput w' = failInput w @ [m]
          \<and> failTopic w' = (if acked env m then failTopic w @ [m] else failTopic w)))"

lemma outcomes_exclusive: "\<not> (created w w' \<and> dead_lettered env w w')"
  by (auto simp: created_def dead_lettered_def)

lemma dead_lettered_Produce: "dead_lettered env w (snd (Produce env m w))"
  by (simp add: dead_lettered_def Produce_world)

lemma dead_lettered_deadLetter: "dead_lettered env w (deadLetter env msg d w)"
  by (cases "Marshal env d") (simp_all add: deadLetter_def dead_lettered_Produce)

lemma ProcessMsg_Done:
  assumes "ProcessMsg env sched msg w = Done w'"
  shows "created w w' \<or> dead_lettered env w w'"
proof (cases "Unmarshal env msg")
  case (Inl err)
  with assms have "w' = snd (Produce env msg w)" by (simp add: ProcessMsg_malformed)
  with dead_lettered_Produce [of env w msg] show ?thesis by blast
next
  case (Inr d)
  show ?thesis
  proof (cases "IsValid d = []")
    case False
    with Inr assms have "w' = deadLetter env msg (d\<lparr>Error := IsValid d\<rparr>) w"
      by (simp add: ProcessMsg_invalid)
    with dead_lettered_deadLetter [of env w msg] show ?thesis by blast
  next
    case True
    let ?s = "run sched (Enrich_start (apiReq env) (newEntry d) (FullName.Name d))"
    from assms have *: "(if panicked ?s then Panic
       else case caller ?s of
         Receiving \<Rightarrow> Waiting
       | Returned (Some err) \<Rightarrow>
           Done (deadLetter env msg (d\<lparr>Error := ''Failed to enrich data from API: '' @ err\<rparr>) w)
       | Returned None \<Rightarrow>
          (case db_Create env (rows w) (entry ?s) of
             Inl err \<Rightarrow>
               Done (deadLetter env msg (d\<lparr>Error := ''Failed to create entry: '' @ err\<rparr>) w)
           | Inr row \<Rightarrow>
              Done (case FlushAll env of
                      Some err \<Rightarrow> w\<lparr>rows := rows w @ [row]\<rparr>
                    | None \<Rightarrow> w\<lparr>rows := rows w @ [row], flushes := flushes w + 1\<rparr>)))
       = Done w'"
      unfolding ProcessMsg_valid [OF Inr True] by (simp add: Let_def)
    then show ?thesis
    proof (cases "caller ?s")
      case Receiving
      with * show ?thesis by (simp split: if_splits)
    next
      case (Returned r)
      show ?thesis
      proof (cases r)
        case (Some c)
        with * Returned
        have "w' = deadLetter env msg (d\<lparr>Error := ''Failed to enrich data from API: '' @ c\<rparr>) w"
          by (simp split: if_splits)
        with dead_lettered_deadLetter [of env w msg] show ?thesis by blast
      next
        case None
        show ?thesis
        proof (cases "db_Create env (rows w) (entry ?s)")
          case (Inl err)
          with * Returned None
          have "w' = deadLetter env msg (d\<lparr>Error := ''Failed to create entry: '' @ err\<rparr>) w"
            by (simp split: if_splits)
          with dead_lettered_deadLetter [of env w msg] show ?thesis by blast
        next
          case (Inr row)
          with * Returned None have "w' = (case FlushAll env of
                      Some err \<Rightarrow> w\<lparr>rows := rows w @ [row]\<rparr>
                    | None \<Rightarrow> w\<lparr>rows := rows w @ [row], flushes := flushes w + 1\<rparr>)"
            by (simp split: if_splits)
          then have "created w w'"
            by (simp add: created_def split: option.splits)
          then show ?thesis ..
        qed
      qed
    qed
  qed
qed

lemma ProcessMsg_not_Waiting: "ProcessMsg env (rounds 12) msg w \<noteq> Waiting"
proof (cases "Unmarshal env msg")
  case (Inl err)
  then show ?thesis by (simp add: ProcessMsg_malformed)
next
  case (Inr d)
  show ?thesis
  proof (cases "IsValid d = []")
    case False
    with Inr show ?thesis by (simp add: ProcessMsg_invalid)
  next
    case True
    from rounds_complete [of 12 "apiReq env" "newEntry d" "FullName.Name d"]
    show ?thesis
      unfolding ProcessMsg_valid [OF Inr True]
      by (auto simp: Let_def split: caller.splits option.splits sum.splits)
  qed
qed

lemma ProcessMsg_Panic:
  assumes "ProcessMsg env sched msg w = Panic"
  shows "\<exists>d. Unmarshal env msg = Inr d \<and> IsValid d = []
           \<and> panics (nationality (apiReq env) (FullName.Name d))"
proof (cases "Unmarshal env msg")
  case (Inl err)
  with assms show ?thesis by (simp add: ProcessMsg_malformed)
next
  case (Inr d)
  show ?thesis
  proof (cases "IsValid d = []")
    case False
    with Inr assms show ?thesis by (simp add: ProcessMsg_invalid)
  next
    case True
    from assms have "panicked (run sched (Enrich_start (apiReq env) (newEntry d) (FullName.Name d)))"
      unfolding ProcessMsg_valid [OF Inr True]
      by (auto simp: Let_def split: if_splits caller.splits option.splits sum.splits)
    with Enrich_nopanic have "panics (nationality (apiReq env) (FullName.Name d))" by blast
    with Inr True show ?thesis by simp
  qed
qed

section \<open>A stub environment\<close>

text \<open>
  Concrete inputs for the closed theorems below.  The two payloads are what the
  repository's test of the pipeline produces with \<^verbatim>\<open>json.Marshal\<close>: the record
  Ivan Ivanov Ivanovich, and the same record with an empty name.  The stub decoder
  knows these two and answers every other payload as the truncated payload \<^verbatim>\<open>{\<close>
  is answered; the stub encoder writes the four fields without escapes, as the
  encoder does for strings that need none.
\<close>

definition msg_ivan :: string where
  \<open>msg_ivan = ''{"Name":"Ivan","Surname":"Ivanov","Patronymic":"Ivanovich","Error":""}''\<close>

definition msg_noname :: string where
  \<open>msg_noname = ''{"Name":"","Surname":"Ivanov","Patronymic":"Ivanovich","Error":""}''\<close>

definition stub_Unmarshal :: "string \<Rightarrow> error + FullName" where
  "stub_Unmarshal m =
    (if m = msg_ivan
       then Inr \<lparr>FullName.Name = ''Ivan'', Surname = ''Ivanov'', Patronymic = ''Ivanovich'',
                 Error = []\<rparr>
     else if m = msg_noname
       then Inr \<lparr>FullName.Name = [], Surname = ''Ivanov'', Patronymic = ''Ivanovich'',
                 Error = []\<rparr>
     else Inl ''unexpected end of JSON input'')"

definition stub_Marshal :: "FullName \<Rightarrow> error + string" where
  \<open>stub_Marshal d =
     Inr (''{"Name":"'' @ FullName.Name d @ ''","Surname":"'' @ FullName.Surname d
          @ ''","Patronymic":"'' @ FullName.Patronymic d @ ''","Error":"'' @ Error d @ ''"}'')\<close>

text \<open>
  The three services, for the name Ivan: each answers with an error of the HTTP
  request or with a decoded body.
\<close>

definition services ::
  "error + (string \<times> json) list \<Rightarrow> error + (string \<times> json) list
     \<Rightarrow> error + (string \<times> json) list \<Rightarrow> api" where
  "services a g n =
    (\<lambda>url. if url = ''https://api.agify.io/?name=Ivan'' then a
           else if url = ''https://api.genderize.io/?name=Ivan'' then g
           else if url = ''https://api.nationalize.io/?name=Ivan'' then n
           else Inl ''no such host'')"

definition age_45 :: "error + (string \<times> json) list" where
  "age_45 = Inr [(''count'', JNumber 1000), (''name'', JString ''Ivan''), (''age'', JNumber 45)]"

definition gender_male :: "error + (string \<times> json) list" where
  "gender_male = Inr [(''count'', JNumber 1000), (''name'', JString ''Ivan''),
     (''gender'', JString ''male''), (''probability'', JNumber 1)]"

definition country_RU :: "error + (string \<times> json) list" where
  "country_RU = Inr [(''count'', JNumber 1000), (''name'', JString ''Ivan''),
     (''country'', JArray [JObject [(''country_id'', JString ''RU''),
                                    (''probability'', JNumber (1 / 2))]])]"

definition timeout :: "error + (string \<times> json) list" where
  "timeout = Inl ''dial tcp: i/o timeout''"

text \<open>
  The stub store accepts every entry and numbers the rows from 1; the broker's
  acknowledgement is a parameter; the cache flush succeeds.
\<close>

definition stub_env :: "api \<Rightarrow> (string \<Rightarrow> bool) \<Rightarrow> env" where
  "stub_env api ack =
     \<lparr>Unmarshal = stub_Unmarshal, Marshal = stub_Marshal, apiReq = api,
      db_Create = (\<lambda>table e. Inr (e\<lparr>ID := of_nat (length table) + 1\<rparr>)),
      acked = ack, FlushAll = None\<rparr>"

definition no_world :: world where
  "no_world = \<lparr>rows = [], failInput = [], failTopic = [], flushes = 0\<rparr>"

text \<open>
  The record of the first payload, and answers of the services that make a lookup
  fail or go wrong: \<open>null\<close> for the age and for the gender, the age 0, and an
  empty list of countries.
\<close>

definition ivan :: FullName where
  "ivan = \<lparr>FullName.Name = ''Ivan'', Surname = ''Ivanov'', Patronymic = ''Ivanovich'',
            Error = []\<rparr>"

definition age_null :: "error + (string \<times> json) list" where
  "age_null = Inr [(''count'', JNumber 0), (''name'', JString ''Ivan''), (''age'', JNull)]"

definition age_0 :: "error + (string \<times> json) list" where
  "age_0 = Inr [(''count'', JNumber 1), (''name'', JString ''Ivan''), (''age'', JNumber 0)]"

definition gender_null :: "error + (string \<times> json) list" where
  "gender_null = Inr [(''count'', JNumber 0), (''name'', JString ''Ivan''),
     (''gender'', JNull), (''probability'', JNumber 0)]"

definition no_country :: "error + (string \<times> json) list" where
  "no_country = Inr [(''count'', JNumber 0), (''name'', JString ''Ivan''),
     (''country'', JArray [])]"

lemmas lookup_defs = age_def gender_def nationality_def uint8_of_float64_def

lemma IsValid_ivan: "IsValid ivan = []"
  by (simp add: ivan_def IsValid_def namePattern_def runes_def name_class_def)

lemma Unmarshal_ivan: "Unmarshal (stub_env api ack) msg_ivan = Inr ivan"
  by (simp add: stub_env_def stub_Unmarshal_def ivan_def)

lemma newEntry_ivan:
  "newEntry ivan = \<lparr>ID = 0, Name = ''Ivan'', Surname = ''Ivanov'', Patronymic = ''Ivanovich'',
     Age = 0, Gender = [], Nationality = []\<rparr>"
  by (simp add: newEntry_def ivan_def)

lemma Name_ivan: "FullName.Name ivan = ''Ivan''"
  by (simp add: ivan_def)

lemma stub_fields:
  "apiReq (stub_env api ack) = api" "acked (stub_env api ack) = ack"
  "Marshal (stub_env api ack) = stub_Marshal" "FlushAll (stub_env api ack) = None"
  "db_Create (stub_env api ack) = (\<lambda>table e. Inr (e\<lparr>ID := of_nat (length table) + 1\<rparr>))"
  by (simp_all add: stub_env_def)

lemma lookups_ok:
  "age (services age_45 g n) ''Ivan'' = Running [] (Some (SetAge 45))"
  "gender (services a gender_male n) ''Ivan'' = Running [] (Some (SetGender ''male''))"
  "nationality (services a g country_RU) ''Ivan'' = Running [] (Some (SetNationality ''RU''))"
  by (simp_all add: lookup_defs services_def age_45_def gender_male_def country_RU_def)

lemma lookups_down:
  "age (services timeout g n) ''Ivan''
     = Running [''dial tcp: i/o timeout'', ''age data not found''] (Some (SetAge 0))"
  "gender (services a timeout n) ''Ivan''
     = Running [''dial tcp: i/o timeout'', ''gender data not found''] (Some (SetGender []))"
  "nationality (services a g timeout) ''Ivan''
     = Running [''dial tcp: i/o timeout'', ''country data not found''] None"
  by (simp_all add: lookup_defs services_def timeout_def)

lemma lookups_null:
  "age (services age_null g n) ''Ivan'' = Running [''age data not found''] (Some (SetAge 0))"
  "gender (services a gender_null n) ''Ivan''
     = Running [''gender data not found''] (Some (SetGender []))"
  "age (services age_0 g n) ''Ivan'' = Running [] (Some (SetAge 0))"
  "nationality (services a g no_country) ''Ivan'' = Running [''country data not found''] None"
  by (simp_all add: lookup_defs services_def age_null_def gender_null_def age_0_def
      no_country_def)

lemmas eval_run = Enrich_start_def step_def worker_def round_def

section \<open>The coordinator against its specification\<close>

text \<open>
  C2 fails on the code.  With the three services unreachable each lookup has two
  errors to send (none returns after its first send) and the channel holds one.  In
  the run below the age lookup sends, \<^verbatim>\<open>Enrich\<close> receives that error and returns
  at once, and the age lookup sends its second error into the buffer and finishes.
  \<^verbatim>\<open>Enrich\<close> has returned while the gender and nationality lookups have not
  finished; both are blocked on their first send, the buffer is full and nobody
  receives any more, the wait group stays at 2, the channel is never closed, and no
  actor can move.
\<close>

theorem Enrich_leaves_lookups_blocked:
  "let s = run [G_age, G_Enrich, G_age, G_age]
             (Enrich_start (services timeout timeout timeout) (newEntry ivan) ''Ivan'')
   in caller s = Returned (Some ''dial tcp: i/o timeout'')
      \<and> g_age s = Finished
      \<and> g_gender s = Running [''dial tcp: i/o timeout'', ''gender data not found'']
                        (Some (SetGender []))
      \<and> g_nationality s = Running [''dial tcp: i/o timeout'', ''country data not found''] None
      \<and> errCh s = [''age data not found''] \<and> tasks s = 2
      \<and> \<not> closed s \<and> \<not> panicked s \<and> stuck s"
  by (simp add: eval_run lookups_down stuck_def Let_def)

text \<open>
  Whatever is scheduled after that run, \<^verbatim>\<open>Enrich\<close> has returned the first error
  and the gender lookup never finishes.
\<close>

theorem Enrich_leaves_lookups_blocked_witness:
  "\<exists>sched. \<forall>more.
     caller (run (sched @ more)
               (Enrich_start (services timeout timeout timeout) (newEntry ivan) ''Ivan''))
       = Returned (Some ''dial tcp: i/o timeout'')
     \<and> g_gender (run (sched @ more)
               (Enrich_start (services timeout timeout timeout) (newEntry ivan) ''Ivan''))
       \<noteq> Finished"
proof (intro exI [of _ "[G_age, G_Enrich, G_age, G_age]"] allI)
  fix more
  let ?s = "run [G_age, G_Enrich, G_age, G_age]
     (Enrich_start (services timeout timeout timeout) (newEntry ivan) ''Ivan'')"
  from Enrich_leaves_lookups_blocked
  have "stuck ?s" and "caller ?s = Returned (Some ''dial tcp: i/o timeout'')"
    and "g_gender ?s \<noteq> Finished"
    by (simp_all add: Let_def)
  moreover from \<open>stuck ?s\<close> have "run more ?s = ?s" by (rule stuck_run)
  ultimately show "caller (run ([G_age, G_Enrich, G_age, G_age] @ more)
               (Enrich_start (services timeout timeout timeout) (newEntry ivan) ''Ivan''))
       = Returned (Some ''dial tcp: i/o timeout'')
     \<and> g_gender (run ([G_age, G_Enrich, G_age, G_age] @ more)
               (Enrich_start (services timeout timeout timeout) (newEntry ivan) ''Ivan''))
       \<noteq> Finished"
    by (simp only: run_append) simp
qed

text \<open>
  The same holds in general.  When the three lookups have three or more errors to
  send between them (two unreachable services, say, or three names unknown to the
  services), then in every state of every run some lookup has not finished and the
  channel is not closed: at least one lookup never finishes, and neither does the
  goroutine that waits for the group.
\<close>

theorem Enrich_never_joins:
  assumes "3 \<le> length (sends_of (age api name)) + length (sends_of (gender api name))
             + length (sends_of (nationality api name))"
  shows "(g_age (run sched (Enrich_start api e name)) \<noteq> Finished
          \<or> g_gender (run sched (Enrich_start api e name)) \<noteq> Finished
          \<or> g_nationality (run sched (Enrich_start api e name)) \<noteq> Finished)
    \<and> \<not> closed (run sched (Enrich_start api e name))"
proof -
  let ?i = "Enrich_start api e name"
  let ?s = "run sched ?i"
  have "pending ?i + length (errCh ?i) + received ?i = pending ?i" "length (errCh ?i) \<le> 1"
    by (simp_all add: Enrich_start_def received_def)
  from sent_run [OF this]
  have "pending ?s + length (errCh ?s) + received ?s = pending ?i" "length (errCh ?s) \<le> 1"
    by simp_all
  moreover have "received ?s \<le> 1" by (simp add: received_def split: caller.splits option.splits)
  moreover from assms have "3 \<le> pending ?i" by (simp add: pending_def Enrich_start_def)
  ultimately have "0 < pending ?s" by linarith
  then have l: "g_age ?s \<noteq> Finished \<or> g_gender ?s \<noteq> Finished \<or> g_nationality ?s \<noteq> Finished"
    by (auto simp: pending_def sends_of_def)
  from run_inv [of api e name sched] have "tasks ?s = alive ?s" "closed ?s \<longrightarrow> tasks ?s = 0"
    unfolding inv_def by blast+
  with l have "\<not> closed ?s" by (auto simp: alive_def live_def)
  with l show ?thesis by simp
qed

text \<open>
  C10.  For every receiver, behaviour of the services, name and schedule: when
  \<^verbatim>\<open>Enrich\<close> returns, with nil or with a failure, the fields ID, Name, Surname
  and Patronymic of the receiver are those it had at the call; and so they are in
  every state of the run, before and after the return and also when a lookup panics.
  The lookups write through pointers to Age, Gender and Nationality only.
\<close>

theorem Enrich_writes_three_fields_only:
  "(\<forall>err e'. Enrich api sched e name = Returns err e' \<longrightarrow>
       ID e' = ID e \<and> Name e' = Name e \<and> Surname e' = Surname e \<and> Patronymic e' = Patronymic e)
   \<and> ID (entry (run sched (Enrich_start api e name))) = ID e
   \<and> Name (entry (run sched (Enrich_start api e name))) = Name e
   \<and> Surname (entry (run sched (Enrich_start api e name))) = Surname e
   \<and> Patronymic (entry (run sched (Enrich_start api e name))) = Patronymic e"
  using run_frame [of sched "Enrich_start api e name"]
  by (auto simp: Enrich_Returns Enrich_start_def)

text \<open>
  Two runs: one returns nil with the three fields filled; one returns a failure,
  with the gender and the nationality filled and the age not yet written.  The other
  four fields are the caller's in both.
\<close>

theorem Enrich_writes_three_fields_only_witness:
  "Enrich (services age_45 gender_male country_RU) round (newEntry ivan) ''Ivan''
     = Returns None \<lparr>ID = 0, Name = ''Ivan'', Surname = ''Ivanov'', Patronymic = ''Ivanovich'',
                     Age = 45, Gender = ''male'', Nationality = ''RU''\<rparr>
   \<and> Enrich (services timeout gender_male country_RU) round (newEntry ivan) ''Ivan''
     = Returns (Some ''dial tcp: i/o timeout'')
         \<lparr>ID = 0, Name = ''Ivan'', Surname = ''Ivanov'', Patronymic = ''Ivanovich'',
          Age = 0, Gender = ''male'', Nationality = ''RU''\<rparr>"
proof -
  have a: "Enrich (services age_45 gender_male country_RU) round (newEntry ivan) ''Ivan''
     = Returns None \<lparr>ID = 0, Name = ''Ivan'', Surname = ''Ivanov'', Patronymic = ''Ivanovich'',
                     Age = 45, Gender = ''male'', Nationality = ''RU''\<rparr>"
    by (simp add: Enrich_def eval_run lookups_ok newEntry_ivan)
  have "\<exists>e'. Enrich (services timeout gender_male country_RU) round (newEntry ivan) ''Ivan''
      = Returns (Some ''dial tcp: i/o timeout'') e'
      \<and> Age e' = 0 \<and> Gender e' = ''male'' \<and> Nationality e' = ''RU''"
    by (simp add: Enrich_def eval_run lookups_ok lookups_down newEntry_ivan)
  then obtain e' where b:
    "Enrich (services timeout gender_male country_RU) round (newEntry ivan) ''Ivan''
      = Returns (Some ''dial tcp: i/o timeout'') e'"
    "Age e' = 0" "Gender e' = ''male''" "Nationality e' = ''RU''"
    by blast
  from Enrich_writes_three_fields_only b(1)
  have "ID e' = ID (newEntry ivan) \<and> Name e' = Name (newEntry ivan)
    \<and> Surname e' = Surname (newEntry ivan) \<and> Patronymic e' = Patronymic (newEntry ivan)"
    by blast
  with b(2-4) have "e' = \<lparr>ID = 0, Name = ''Ivan'', Surname = ''Ivanov'',
      Patronymic = ''Ivanovich'', Age = 0, Gender = ''male'', Nationality = ''RU''\<rparr>"
    by (simp add: newEntry_ivan)
  with a b(1) show ?thesis by simp
qed

text \<open>
  C1, as the code has it.  In a run in which one or more lookups report an error,
  \<^verbatim>\<open>Enrich\<close> never returns nil; what it returns is one error, the first it
  receives from the channel, which is one of the causes the lookups report.  When
  the nationality service has answered with a non-empty \<open>country\<close> list, so that
  the nationality lookup does not end in a run-time panic, twelve or more rounds of
  the five actors end with such a failure returned.  After a failure
  \<^verbatim>\<open>ProcessMsg\<close> leaves the table of entries as it was.
\<close>

theorem Enrich_returns_first_failure:
  assumes "fails (age api name) \<or> fails (gender api name) \<or> fails (nationality api name)"
  shows "(\<forall>err e'. Enrich api sched e name = Returns err e' \<longrightarrow>
            (\<exists>c \<in> reported api name. err = Some c))
    \<and> (\<not> panics (nationality api name) \<and> 12 \<le> n \<longrightarrow>
          (\<exists>c \<in> reported api name. \<exists>e'. Enrich api (rounds n) e name = Returns (Some c) e'))
    \<and> (apiReq env = api \<and> Unmarshal env msg = Inr d \<and> FullName.Name d = name
          \<and> IsValid d = []
        \<longrightarrow> (\<forall>w'. ProcessMsg env sched msg w = Done w' \<longrightarrow> rows w' = rows w))"
proof (intro conjI impI allI)
  have nil: "caller (run sched (Enrich_start api e name)) \<noteq> Returned None" for sched e
    using assms run_returns_nil [of sched api e name] by blast
  have some: "\<exists>c \<in> reported api name. err = Some c"
    if "caller (run sched (Enrich_start api e name)) = Returned err" for sched e err
  proof (cases err)
    case None
    with that nil [of sched e] show ?thesis by simp
  next
    case (Some c)
    with that run_returns_cause [of sched api e name c] show ?thesis by simp
  qed
  show "\<exists>c \<in> reported api name. err = Some c"
    if "Enrich api sched e name = Returns err e'" for err e'
    using that some [of sched e err] by (simp add: Enrich_Returns)
  show "\<exists>c \<in> reported api name. \<exists>e'. Enrich api (rounds n) e name = Returns (Some c) e'"
    if np: "\<not> panics (nationality api name) \<and> 12 \<le> n"
  proof (cases "Enrich api (rounds n) e name")
    case (Returns err e')
    with some [of "rounds n" e err] show ?thesis by (auto simp: Enrich_Returns)
  next
    case Blocked
    from np have "12 \<le> n" by simp
    from rounds_complete [OF this, of api e name] Blocked show ?thesis
      by (simp add: Enrich_Blocked)
  next
    case Crashed
    from np have "\<not> panics (nationality api name)" by simp
    from Enrich_nopanic [OF this, of "rounds n" e] Crashed show ?thesis
      by (simp add: Enrich_Crashed)
  qed
  show "rows w' = rows w"
    if a: "apiReq env = api \<and> Unmarshal env msg = Inr d \<and> FullName.Name d = name
      \<and> IsValid d = []"
      and b: "ProcessMsg env sched msg w = Done w'" for w'
  proof -
    let ?s = "run sched (Enrich_start api (newEntry d) name)"
    from a have u: "Unmarshal env msg = Inr d" and v: "IsValid d = []" by simp_all
    from nil [of sched "newEntry d"] have "caller ?s \<noteq> Returned None" .
    with b a obtain c where
      "w' = deadLetter env msg (d\<lparr>Error := ''Failed to enrich data from API: '' @ c\<rparr>) w"
      unfolding ProcessMsg_valid [OF u v]
      by (auto simp: Let_def split: if_splits caller.splits option.splits)
    then show ?thesis by (simp add: deadLetter_rows)
  qed
qed

text \<open>
  The age and gender services both answer \<open>null\<close> and the nationality service
  answers well: no lookup panics, \<^verbatim>\<open>Enrich\<close> returns the failure of the age
  lookup, and the dead letter carries that one cause.
\<close>

theorem Enrich_returns_first_failure_witness:
  \<open>fails (age (services age_null gender_null country_RU) ''Ivan'')
   \<and> \<not> panics (nationality (services age_null gender_null country_RU) ''Ivan'')
   \<and> Enrich (services age_null gender_null country_RU) (rounds 12) (newEntry ivan) ''Ivan''
       = Returns (Some ''age data not found'')
           \<lparr>ID = 0, Name = ''Ivan'', Surname = ''Ivanov'', Patronymic = ''Ivanovich'',
            Age = 0, Gender = [], Nationality = ''RU''\<rparr>
   \<and> ''age data not found'' \<in> reported (services age_null gender_null country_RU) ''Ivan''
   \<and> ProcessMsg (stub_env (services age_null gender_null country_RU) (\<lambda>m. True)) (rounds 12)
        msg_ivan no_world
      = Done \<lparr>rows = [],
          failInput = [''{"Name":"Ivan","Surname":"Ivanov","Patronymic":"Ivanovich",''
            @ ''"Error":"Failed to enrich data from API: age data not found"}''],
          failTopic = [''{"Name":"Ivan","Surname":"Ivanov","Patronymic":"Ivanovich",''
            @ ''"Error":"Failed to enrich data from API: age data not found"}''],
          flushes = 0\<rparr>\<close>
proof -
  let ?api = "services age_null gender_null country_RU"
  have f: "fails (age ?api ''Ivan'')"
    by (simp add: fails_def sends_of_def lookups_null)
  then have g: "fails (age ?api ''Ivan'') \<or> fails (gender ?api ''Ivan'')
      \<or> fails (nationality ?api ''Ivan'')"
    by simp
  have np: "\<not> panics (nationality ?api ''Ivan'')"
    by (simp add: panics_def lookups_ok)
  have r: "Enrich ?api (rounds 12) (newEntry ivan) ''Ivan''
       = Returns (Some ''age data not found'')
           \<lparr>ID = 0, Name = ''Ivan'', Surname = ''Ivanov'', Patronymic = ''Ivanovich'',
            Age = 0, Gender = [], Nationality = ''RU''\<rparr>"
    by (simp add: Enrich_def rounds_def eval_nat_numeral eval_run lookups_ok lookups_null
        newEntry_ivan)
  from Enrich_returns_first_failure [OF g, where n = 12 and e = "newEntry ivan"] np
  have "\<exists>c \<in> reported ?api ''Ivan''. \<exists>e'.
      Enrich ?api (rounds 12) (newEntry ivan) ''Ivan'' = Returns (Some c) e'"
    by blast
  with r have "''age data not found'' \<in> reported ?api ''Ivan''" by auto
  moreover have \<open>ProcessMsg (stub_env ?api (\<lambda>m. True)) (rounds 12) msg_ivan no_world
      = Done \<lparr>rows = [],
          failInput = [''{"Name":"Ivan","Surname":"Ivanov","Patronymic":"Ivanovich",''
            @ ''"Error":"Failed to enrich data from API: age data not found"}''],
          failTopic = [''{"Name":"Ivan","Surname":"Ivanov","Patronymic":"Ivanovich",''
            @ ''"Error":"Failed to enrich data from API: age data not found"}''],
          flushes = 0\<rparr>\<close>
    by (simp add: ProcessMsg_valid [OF Unmarshal_ivan IsValid_ivan] stub_fields Name_ivan
        rounds_def eval_nat_numeral eval_run lookups_ok lookups_null deadLetter_def
        Produce_def stub_Marshal_def no_world_def ivan_def)
  ultimately show ?thesis using f np r by simp
qed

text \<open>
  C1, as the claim states it, fails: in that run the age and the gender lookups
  both fail, and the failure returned is \<open>age data not found\<close>, which does not
  contain the cause of the gender lookup.
\<close>

theorem Enrich_aggregates_counterexample:
  "fails (age (services age_null gender_null country_RU) ''Ivan'')
   \<and> fails (gender (services age_null gender_null country_RU) ''Ivan'')
   \<and> sends_of (gender (services age_null gender_null country_RU) ''Ivan'')
       = [''gender data not found'']
   \<and> Enrich (services age_null gender_null country_RU) round (newEntry ivan) ''Ivan''
       = Returns (Some ''age data not found'')
           \<lparr>ID = 0, Name = ''Ivan'', Surname = ''Ivanov'', Patronymic = ''Ivanovich'',
            Age = 0, Gender = [], Nationality = ''RU''\<rparr>
   \<and> \<not> sublist ''gender data not found'' ''age data not found''"
proof -
  have "\<not> sublist ''gender data not found'' ''age data not found''"
    using sublist_length_le [of "''gender data not found''" "''age data not found''"] by auto
  then show ?thesis
    by (simp add: fails_def sends_of_def lookups_null lookups_ok Enrich_def eval_run
        newEntry_ivan)
qed

text \<open>
  C6 fails on the code.  When the service answers with an empty \<open>country\<close> list,
  or with no \<open>country\<close> at all, the nationality lookup sends
  \<open>country data not found\<close> and goes on to \<^verbatim>\<open>countryList[0]\<close>, which panics:
  scheduled twice from the start, it has sent its error and brought the process
  down.
\<close>

theorem nationality_panics_on_empty_list:
  assumes "api (''https://api.nationalize.io/?name='' @ name) = Inr reqData"
    and "map_of reqData ''country'' = Some (JArray []) \<or> map_of reqData ''country'' = None"
  shows "nationality api name = Running [''country data not found''] None
    \<and> panicked (run [G_nationality, G_nationality] (Enrich_start api e name))"
proof -
  from assms have n: "nationality api name = Running [''country data not found''] None"
    by (auto simp: nationality_def)
  then show ?thesis by (simp add: Enrich_start_def step_def worker_def)
qed

text \<open>
  The answer \<^verbatim>\<open>{"count":0,"name":"Ivan","country":[]}\<close>, with the two other
  services answering well: the pipeline ends in the panic under two rounds.
\<close>

theorem nationality_panics_on_empty_list_witness:
  "nationality (services age_45 gender_male no_country) ''Ivan''
     = Running [''country data not found''] None
   \<and> panicked (run [G_nationality, G_nationality]
        (Enrich_start (services age_45 gender_male no_country) (newEntry ivan) ''Ivan''))
   \<and> ProcessMsg (stub_env (services age_45 gender_male no_country) (\<lambda>m. True))
        (rounds 2) msg_ivan no_world = Panic"
proof -
  have "services age_45 gender_male no_country (''https://api.nationalize.io/?name='' @ ''Ivan'')
      = Inr [(''count'', JNumber 0), (''name'', JString ''Ivan''), (''country'', JArray [])]"
    by (simp add: services_def no_country_def)
  moreover have "map_of [(''count'', JNumber 0), (''name'', JString ''Ivan''),
      (''country'', JArray [])] ''country'' = Some (JArray [])
    \<or> map_of [(''count'', JNumber 0), (''name'', JString ''Ivan''),
      (''country'', JArray [])] ''country'' = None"
    by simp
  ultimately have "nationality (services age_45 gender_male no_country) ''Ivan''
       = Running [''country data not found''] None
     \<and> panicked (run [G_nationality, G_nationality]
          (Enrich_start (services age_45 gender_male no_country) (newEntry ivan) ''Ivan''))"
    by (rule nationality_panics_on_empty_list)
  moreover have "ProcessMsg (stub_env (services age_45 gender_male no_country) (\<lambda>m. True))
        (rounds 2) msg_ivan no_world = Panic"
    by (simp add: ProcessMsg_valid [OF Unmarshal_ivan IsValid_ivan] stub_fields Name_ivan
        rounds_def eval_run lookups_ok lookups_null numeral_2_eq_2)
  ultimately show ?thesis by simp
qed

text \<open>
  A further property.  When \<^verbatim>\<open>Enrich\<close> returns nil, no lookup has reported
  an error, all three have finished, and the fields Age, Gender and Nationality of
  the receiver hold what the three lookups decoded from the answers of their
  services.
\<close>

theorem Enrich_success_fills_entry:
  assumes "Enrich api sched e name = Returns None e'"
  shows "\<not> fails (age api name) \<and> \<not> fails (gender api name) \<and> \<not> fails (nationality api name)
    \<and> age api name = Running [] (Some (SetAge (Age e')))
    \<and> gender api name = Running [] (Some (SetGender (Gender e')))
    \<and> nationality api name = Running [] (Some (SetNationality (Nationality e')))
    \<and> g_age (run sched (Enrich_start api e name)) = Finished
    \<and> g_gender (run sched (Enrich_start api e name)) = Finished
    \<and> g_nationality (run sched (Enrich_start api e name)) = Finished"
proof -
  let ?s = "run sched (Enrich_start api e name)"
  from assms have r: "caller ?s = Returned None" and e: "entry ?s = e'"
    by (simp_all add: Enrich_Returns)
  from run_filling [of api e name sched] r have "closed ?s"
    unfolding filling_def by blast
  moreover from run_inv [of api e name sched]
  have "tasks ?s = alive ?s" "closed ?s \<longrightarrow> tasks ?s = 0"
    unfolding inv_def by blast+
  ultimately have "alive ?s = 0" by simp
  then have "\<forall>b\<in>lookups. get b ?s = Finished" using alive_0 by blast
  then have "g_age ?s = Finished" "g_gender ?s = Finished" "g_nationality ?s = Finished"
    by (simp_all add: lookups_def)
  with run_returns_nil [OF r] run_returns_nil_filled [OF r] e show ?thesis by simp
qed

text \<open>All services answering well: nil, and the age is the decoded 45.\<close>

theorem Enrich_success_fills_entry_witness:
  "Enrich (services age_45 gender_male country_RU) round (newEntry ivan) ''Ivan''
     = Returns None \<lparr>ID = 0, Name = ''Ivan'', Surname = ''Ivanov'', Patronymic = ''Ivanovich'',
                     Age = 45, Gender = ''male'', Nationality = ''RU''\<rparr>
   \<and> age (services age_45 gender_male country_RU) ''Ivan'' = Running [] (Some (SetAge 45))
   \<and> \<not> fails (nationality (services age_45 gender_male country_RU) ''Ivan'')"
proof -
  have a: "Enrich (services age_45 gender_male country_RU) round (newEntry ivan) ''Ivan''
     = Returns None \<lparr>ID = 0, Name = ''Ivan'', Surname = ''Ivanov'', Patronymic = ''Ivanovich'',
                     Age = 45, Gender = ''male'', Nationality = ''RU''\<rparr>"
    by (simp add: Enrich_def eval_run lookups_ok newEntry_ivan)
  from Enrich_success_fills_entry [OF a] a show ?thesis
    by (simp add: fails_def sends_of_def)
qed

section \<open>The pipeline against its specification\<close>

text \<open>
  C3 fails on the code.  \<^verbatim>\<open>ProcessMsg\<close> passes the entry to the store as
  \<^verbatim>\<open>Enrich\<close> left it, without the call of \<^verbatim>\<open>Entry.IsValid\<close> that Create and
  Update make.  When the age service answers \<^verbatim>\<open>{"count":1,"name":"Ivan","age":0}\<close>
  the row is created with age 0, which \<^verbatim>\<open>Entry.IsValid\<close> rejects.
\<close>

theorem ProcessMsg_persists_age_0:
  "ProcessMsg (stub_env (services age_0 gender_male country_RU) (\<lambda>m. True)) round msg_ivan
     no_world
   = Done \<lparr>rows = [\<lparr>ID = 1, Name = ''Ivan'', Surname = ''Ivanov'', Patronymic = ''Ivanovich'',
                     Age = 0, Gender = ''male'', Nationality = ''RU''\<rparr>],
            failInput = [], failTopic = [], flushes = 1\<rparr>
   \<and> Entry_IsValid \<lparr>ID = 1, Name = ''Ivan'', Surname = ''Ivanov'', Patronymic = ''Ivanovich'',
                      Age = 0, Gender = ''male'', Nationality = ''RU''\<rparr>
     = Some ''age contains invalid data''"
proof -
  have "Entry_IsValid \<lparr>ID = 1, Name = ''Ivan'', Surname = ''Ivanov'', Patronymic = ''Ivanovich'',
                      Age = 0, Gender = ''male'', Nationality = ''RU''\<rparr>
     = Some ''age contains invalid data''"
    by (simp add: Entry_IsValid_def namePattern_def countryPattern_def runes_def name_class_def)
  moreover have "ProcessMsg (stub_env (services age_0 gender_male country_RU) (\<lambda>m. True)) round
      msg_ivan no_world
   = Done \<lparr>rows = [\<lparr>ID = 1, Name = ''Ivan'', Surname = ''Ivanov'', Patronymic = ''Ivanovich'',
                     Age = 0, Gender = ''male'', Nationality = ''RU''\<rparr>],
            failInput = [], failTopic = [], flushes = 1\<rparr>"
    by (simp add: ProcessMsg_valid [OF Unmarshal_ivan IsValid_ivan] stub_fields Name_ivan
        eval_run lookups_ok lookups_null newEntry_ivan no_world_def)
  ultimately show ?thesis by simp
qed

text \<open>A row of the table that the validator of entries rejects.\<close>

theorem ProcessMsg_persists_age_0_witness:
  "\<exists>w row. ProcessMsg (stub_env (services age_0 gender_male country_RU) (\<lambda>m. True)) round
       msg_ivan no_world = Done w
     \<and> row \<in> set (rows w) \<and> Entry_IsValid row \<noteq> None"
  by (rule exI [of _ "\<lparr>rows = [\<lparr>ID = 1, Name = ''Ivan'', Surname = ''Ivanov'',
          Patronymic = ''Ivanovich'', Age = 0, Gender = ''male'', Nationality = ''RU''\<rparr>],
        failInput = [], failTopic = [], flushes = 1\<rparr>"],
      rule exI [of _ "\<lparr>ID = 1, Name = ''Ivan'', Surname = ''Ivanov'',
          Patronymic = ''Ivanovich'', Age = 0, Gender = ''male'', Nationality = ''RU''\<rparr>"])
     (use ProcessMsg_persists_age_0 in simp)

text \<open>
  C4 fails on the code.  The message of Ivan is valid, the broker acknowledges
  every message, and the nationality service answers
  \<^verbatim>\<open>{"count":0,"name":"Ivan","country":[]}\<close>: \<^verbatim>\<open>ProcessMsg\<close> does not return.
  The process dies in the nationality lookup, with no row created and nothing
  handed to the failure producer.
\<close>

theorem ProcessMsg_neither_by_panic:
  "Unmarshal (stub_env (services age_45 gender_male no_country) (\<lambda>m. True)) msg_ivan
     = Inr ivan
   \<and> IsValid ivan = []
   \<and> ProcessMsg (stub_env (services age_45 gender_male no_country) (\<lambda>m. True)) (rounds 12)
        msg_ivan no_world = Panic"
proof -
  have "ProcessMsg (stub_env (services age_45 gender_male no_country) (\<lambda>m. True)) (rounds 12)
        msg_ivan no_world = Panic"
    by (simp add: ProcessMsg_valid [OF Unmarshal_ivan IsValid_ivan] stub_fields Name_ivan
        rounds_def eval_nat_numeral eval_run lookups_ok lookups_null)
  with Unmarshal_ivan IsValid_ivan show ?thesis by simp
qed

text \<open>No world is left by that run: \<^verbatim>\<open>ProcessMsg\<close> has not returned.\<close>

theorem ProcessMsg_neither_by_panic_witness:
  "\<nexists>w'. ProcessMsg (stub_env (services age_45 gender_male no_country) (\<lambda>m. True)) (rounds 12)
           msg_ivan no_world = Done w'"
  using ProcessMsg_neither_by_panic by simp

text \<open>
  A further property.  Whenever \<^verbatim>\<open>ProcessMsg\<close> returns, exactly one of two
  outcomes holds: one entry is created and nothing is handed to the failure
  producer; or no row is written and exactly one message is handed to the failure
  producer, which is on the failure topic when, and only when, the broker
  acknowledges it.  Under twelve rounds of the goroutines \<^verbatim>\<open>ProcessMsg\<close> is not
  left waiting, and it ends in a panic only when the message is valid and the
  nationality lookup panics.
\<close>

theorem ProcessMsg_one_outcome:
  "(\<forall>w'. ProcessMsg env sched msg w = Done w' \<longrightarrow>
        (created w w' \<and> \<not> dead_lettered env w w')
      \<or> (dead_lettered env w w' \<and> \<not> created w w'))
   \<and> ProcessMsg env (rounds 12) msg w \<noteq> Waiting
   \<and> (ProcessMsg env sched msg w = Panic \<longrightarrow>
        (\<exists>d. Unmarshal env msg = Inr d \<and> IsValid d = []
            \<and> panics (nationality (apiReq env) (FullName.Name d))))"
proof (intro conjI allI impI)
  fix w' assume "ProcessMsg env sched msg w = Done w'"
  from ProcessMsg_Done [OF this] outcomes_exclusive [of w w' env]
  show "(created w w' \<and> \<not> dead_lettered env w w')
      \<or> (dead_lettered env w w' \<and> \<not> created w w')"
    by blast
next
  show "ProcessMsg env (rounds 12) msg w \<noteq> Waiting" by (rule ProcessMsg_not_Waiting)
next
  assume "ProcessMsg env sched msg w = Panic"
  then show "\<exists>d. Unmarshal env msg = Inr d \<and> IsValid d = []
            \<and> panics (nationality (apiReq env) (FullName.Name d))"
    by (rule ProcessMsg_Panic)
qed

text \<open>The payload of Ivan, all services answering well: one row, no failure message.\<close>

theorem ProcessMsg_one_outcome_witness:
  "\<exists>w'. ProcessMsg (stub_env (services age_45 gender_male country_RU) (\<lambda>m. True)) round
           msg_ivan no_world = Done w'
     \<and> rows w' = [\<lparr>ID = 1, Name = ''Ivan'', Surname = ''Ivanov'', Patronymic = ''Ivanovich'',
                     Age = 45, Gender = ''male'', Nationality = ''RU''\<rparr>]
     \<and> created no_world w'
     \<and> \<not> dead_lettered (stub_env (services age_45 gender_male country_RU) (\<lambda>m. True))
           no_world w'"
proof -
  let ?w = "\<lparr>rows = [\<lparr>ID = 1, Name = ''Ivan'', Surname = ''Ivanov'',
      Patronymic = ''Ivanovich'', Age = 45, Gender = ''male'', Nationality = ''RU''\<rparr>],
      failInput = [], failTopic = [], flushes = 1\<rparr>"
  have d: "ProcessMsg (stub_env (services age_45 gender_male country_RU) (\<lambda>m. True)) round
      msg_ivan no_world = Done ?w"
    by (simp add: ProcessMsg_valid [OF Unmarshal_ivan IsValid_ivan] stub_fields Name_ivan
        eval_run lookups_ok newEntry_ivan no_world_def)
  have c: "created no_world ?w" by (simp add: created_def no_world_def)
  from ProcessMsg_one_outcome
    [of "stub_env (services age_45 gender_male country_RU) (\<lambda>m. True)" round msg_ivan no_world]
    d c
  have "\<not> dead_lettered (stub_env (services age_45 gender_male country_RU) (\<lambda>m. True))
      no_world ?w"
    by blast
  with d c show ?thesis by (intro exI [of _ ?w]) simp
qed

text \<open>
  The payload with the empty name and a broker that refuses the dead letter: the
  message is handed to the producer and does not reach the failure topic.
\<close>

lemma ProcessMsg_refused_dead_letter:
  \<open>ProcessMsg (stub_env (services age_45 gender_male country_RU) (\<lambda>m. False)) round
     msg_noname no_world
   = Done \<lparr>rows = [],
       failInput = [''{"Name":"","Surname":"Ivanov","Patronymic":"Ivanovich",''
                    @ ''"Error":"name cannot be empty"}''],
       failTopic = [], flushes = 0\<rparr>\<close>
proof -
  have u: "Unmarshal (stub_env (services age_45 gender_male country_RU) (\<lambda>m. False)) msg_noname
      = Inr \<lparr>FullName.Name = [], Surname = ''Ivanov'', Patronymic = ''Ivanovich'', Error = []\<rparr>"
    by (simp add: stub_env_def stub_Unmarshal_def msg_noname_def msg_ivan_def)
  have v: "IsValid \<lparr>FullName.Name = [], Surname = ''Ivanov'', Patronymic = ''Ivanovich'',
      Error = []\<rparr> = ''name cannot be empty''"
    by (simp add: IsValid_def namePattern_def runes_def name_class_def)
  then have v': "IsValid \<lparr>FullName.Name = [], Surname = ''Ivanov'', Patronymic = ''Ivanovich'',
      Error = []\<rparr> \<noteq> []"
    by simp
  show ?thesis
    unfolding ProcessMsg_invalid [OF u v'] v
    by (simp add: deadLetter_def Produce_def stub_fields stub_Marshal_def no_world_def)
qed

text \<open>
  C5 fails on the code.  For a payload that does not decode, \<^verbatim>\<open>ProcessMsg\<close>
  hands the bytes it received to the failure producer, unchanged, and returns: the
  message produced is the payload that could not be decoded, not the encoding of a
  record with the cause in its \<open>Error\<close> field, and the job repository is not
  written.  The cause \<open>err\<close> of the failure does not occur in what is produced.
\<close>

theorem ProcessMsg_malformed_payload:
  assumes "Unmarshal env msg = Inl err"
  shows "ProcessMsg env sched msg w
    = Done (if acked env msg
            then w\<lparr>failInput := failInput w @ [msg], failTopic := failTopic w @ [msg]\<rparr>
            else w\<lparr>failInput := failInput w @ [msg]\<rparr>)"
  using assms by (simp add: ProcessMsg_malformed Produce_world)

text \<open>
  The truncated payload \<^verbatim>\<open>{\<close>: the decoder reports
  \<open>unexpected end of JSON input\<close>; the one message on the failure topic is
  \<^verbatim>\<open>{\<close>, which is the encoding of no record, with or without a cause.
\<close>

theorem ProcessMsg_malformed_payload_witness:
  "Unmarshal (stub_env (services age_45 gender_male country_RU) (\<lambda>m. True)) ''{''
     = Inl ''unexpected end of JSON input''
   \<and> ProcessMsg (stub_env (services age_45 gender_male country_RU) (\<lambda>m. True)) round ''{''
        no_world
     = Done \<lparr>rows = [], failInput = [''{''], failTopic = [''{''], flushes = 0\<rparr>
   \<and> (\<nexists>d. Marshal (stub_env (services age_45 gender_male country_RU) (\<lambda>m. True)) d
              = Inr ''{'')"
proof -
  have u: "Unmarshal (stub_env (services age_45 gender_male country_RU) (\<lambda>m. True)) ''{''
     = Inl ''unexpected end of JSON input''"
    by (simp add: stub_env_def stub_Unmarshal_def msg_ivan_def msg_noname_def)
  from ProcessMsg_malformed_payload [OF u, of round no_world] u show ?thesis
    by (simp add: stub_fields no_world_def stub_Marshal_def)
qed

text \<open>
  A further property.  A message that decodes and violates a rule of the validator is dead-lettered
  with the validator's cause in its \<open>Error\<close> field and the name, surname and
  patronymic as they arrived: what is handed to the producer is the encoding of that
  record, no lookup is made and no row is written.
\<close>

theorem ProcessMsg_rejects_invalid:
  assumes "Unmarshal env msg = Inr d" and "IsValid d \<noteq> []"
    and "Marshal env (d\<lparr>Error := IsValid d\<rparr>) = Inr jsonData"
  shows "ProcessMsg env sched msg w
    = Done (if acked env jsonData
            then w\<lparr>failInput := failInput w @ [jsonData],
                   failTopic := failTopic w @ [jsonData]\<rparr>
            else w\<lparr>failInput := failInput w @ [jsonData]\<rparr>)"
  using assms by (simp add: ProcessMsg_invalid deadLetter_def Produce_world)

text \<open>The payload with the empty name.\<close>

theorem ProcessMsg_rejects_invalid_witness:
  \<open>ProcessMsg (stub_env (services age_45 gender_male country_RU) (\<lambda>m. True)) round
     msg_noname no_world
   = Done \<lparr>rows = [],
       failInput = [''{"Name":"","Surname":"Ivanov","Patronymic":"Ivanovich",''
                    @ ''"Error":"name cannot be empty"}''],
       failTopic = [''{"Name":"","Surname":"Ivanov","Patronymic":"Ivanovich",''
                    @ ''"Error":"name cannot be empty"}''],
       flushes = 0\<rparr>\<close>
proof -
  let ?d = "\<lparr>FullName.Name = [], Surname = ''Ivanov'', Patronymic = ''Ivanovich'', Error = []\<rparr>"
  have u: "Unmarshal (stub_env (services age_45 gender_male country_RU) (\<lambda>m. True)) msg_noname
      = Inr ?d"
    by (simp add: stub_env_def stub_Unmarshal_def msg_noname_def msg_ivan_def)
  have v: "IsValid ?d = ''name cannot be empty''"
    by (simp add: IsValid_def namePattern_def runes_def name_class_def)
  then have v': "IsValid ?d \<noteq> []" by simp
  have m: \<open>Marshal (stub_env (services age_45 gender_male country_RU) (\<lambda>m. True))
      (?d\<lparr>Error := IsValid ?d\<rparr>)
     = Inr (''{"Name":"","Surname":"Ivanov","Patronymic":"Ivanovich",''
            @ ''"Error":"name cannot be empty"}'')\<close>
    unfolding v by (simp add: stub_fields stub_Marshal_def)
  from ProcessMsg_rejects_invalid [OF u v' m, of round no_world] show ?thesis
    by (simp add: stub_fields no_world_def)
qed

end
